theory Spec2Isabelle
  imports Main "HOL-Library.AList"
begin

text \<open>
  A model of \<^verbatim>\<open>run.py\<close>, the batch driver that asks a language model for distractors
  and appends one record per question to a JSON file. The functions of \<^verbatim>\<open>run.py\<close> keep
  their names; the parts of Python's \<^verbatim>\<open>json\<close> module they rely on are modelled first,
  the collaborators that live in other modules are parameters.
\<close>

section \<open>Exceptions\<close>

text \<open>
  Every \<^verbatim>\<open>raise\<close> of \<^verbatim>\<open>run.py\<close> and of the library calls it makes is a value.
  \<open>ExternalError\<close> is whatever a collaborator outside \<^verbatim>\<open>run.py\<close> raises (the prompt
  framework, the model backend, the extraction helpers). \<open>Unmodelled\<close> is not a Python
  exception: it marks the inputs that this development does not describe, which are, for
  the JSON decoder, numbers, \<^verbatim>\<open>NaN\<close>, \<^verbatim>\<open>Infinity\<close> and \<^verbatim>\<open>\u\<close> escapes outside
  Latin-1, and for the append, an existing output file with a character outside ASCII;
  no theorem says what the program does there. Python's recursion limit is not part
  of the model either: the decoder and the encoder here follow a value to any depth, and
  a statement about arbitrary file content bounds the nesting it covers explicitly.
\<close>

datatype exn =
    JSONDecodeError
  | FileNotFoundError
  | KeyError string
  | TypeError
  | ExternalError string
  | Unmodelled

section \<open>JSON values\<close>

text \<open>
  The values \<^verbatim>\<open>json.load\<close> returns and \<^verbatim>\<open>json.dump\<close> accepts, without numbers:
  \<^verbatim>\<open>None\<close>, \<^verbatim>\<open>bool\<close>, \<^verbatim>\<open>str\<close>, \<^verbatim>\<open>list\<close> and \<^verbatim>\<open>dict\<close> with \<^verbatim>\<open>str\<close> keys. A dict keeps
  its insertion order, so it is an association list; Python's dicts have no duplicate keys,
  which is \<open>wf_json\<close>. A character is a code point below 256.
\<close>

datatype json =
    JNull
  | JBool bool
  | JStr string
  | JArr "json list"
  | JObj "(string \<times> json) list"

fun wf_json :: "json \<Rightarrow> bool" where
  "wf_json (JArr vs) = (\<forall>v \<in> set vs. wf_json v)"
| "wf_json (JObj kvs) = (distinct (map fst kvs) \<and> (\<forall>kv \<in> set kvs. wf_json (snd kv)))"
| "wf_json _ = True"

definition dq :: char where "dq = CHR 0x22"
definition bs :: char where "bs = CHR 0x5C"

subsection \<open>\<^verbatim>\<open>json.dump(obj, f, indent=4)\<close>\<close>

definition hex_digit :: "nat \<Rightarrow> char" where
  "hex_digit n = ''0123456789abcdef'' ! n"

text \<open>
  \<^verbatim>\<open>py_encode_basestring_ascii\<close> (\<^verbatim>\<open>ensure_ascii\<close> is on by default): the quote and the
  backslash are escaped, the five control characters with a short form take it, and every
  other character outside \<^verbatim>\<open>' '..'~'\<close> becomes \<^verbatim>\<open>\u00xx\<close> in lower-case hexadecimal.
\<close>

definition escape_char :: "char \<Rightarrow> string" where
  "escape_char c =
     (if c = dq then [bs, dq]
      else if c = bs then [bs, bs]
      else if c = CHR 0x0A then [bs, CHR ''n'']
      else if c = CHR 0x0D then [bs, CHR ''r'']
      else if c = CHR 0x09 then [bs, CHR ''t'']
      else if c = CHR 0x08 then [bs, CHR ''b'']
      else if c = CHR 0x0C then [bs, CHR ''f'']
      else if (of_char c :: nat) < 32 \<or> (of_char c :: nat) > 126
        then [bs, CHR ''u'', CHR ''0'', CHR ''0'',
              hex_digit ((of_char c :: nat) div 16), hex_digit ((of_char c :: nat) mod 16)]
      else [c])"

definition encode_basestring_ascii :: "string \<Rightarrow> string" where
  "encode_basestring_ascii s = dq # concat (map escape_char s) @ [dq]"

definition newline_indent :: "nat \<Rightarrow> string" where
  "newline_indent level = CHR 0x0A # replicate (4 * level) (CHR '' '')"

text \<open>
  \<^verbatim>\<open>_iterencode\<close> at a nesting level: an empty container is \<^verbatim>\<open>[]\<close> or \<^verbatim>\<open>{}\<close>; the items
  of any other one stand each on a line of its own, one level deeper, separated by a comma,
  a key from its value by \<^verbatim>\<open>": "\<close>.
\<close>

fun iterencode :: "nat \<Rightarrow> json \<Rightarrow> string"
  and iterencode_list :: "nat \<Rightarrow> json list \<Rightarrow> string"
  and iterencode_dict :: "nat \<Rightarrow> (string \<times> json) list \<Rightarrow> string" where
  "iterencode level JNull = ''null''"
| "iterencode level (JBool b) = (if b then ''true'' else ''false'')"
| "iterencode level (JStr s) = encode_basestring_ascii s"
| "iterencode level (JArr vs) =
     (if vs = [] then ''[]''
      else ''['' @ newline_indent (Suc level) @ iterencode_list (Suc level) vs
           @ newline_indent level @ '']'')"
| "iterencode level (JObj kvs) =
     (if kvs = [] then ''{}''
      else ''{'' @ newline_indent (Suc level) @ iterencode_dict (Suc level) kvs
           @ newline_indent level @ ''}'')"
| "iterencode_list level [] = []"
| "iterencode_list level (v # vs) =
     iterencode level v
     @ (if vs = [] then [] else '','' @ newline_indent level @ iterencode_list level vs)"
| "iterencode_dict level [] = []"
| "iterencode_dict level (kv # kvs) =
     encode_basestring_ascii (fst kv) @ '': '' @ iterencode level (snd kv)
     @ (if kvs = [] then [] else '','' @ newline_indent level @ iterencode_dict level kvs)"

definition json_dumps :: "json \<Rightarrow> string" where
  "json_dumps v = iterencode 0 v"

subsection \<open>\<^verbatim>\<open>json.load(f)\<close>\<close>

definition is_ws :: "char \<Rightarrow> bool" where
  "is_ws c \<longleftrightarrow> c = CHR '' '' \<or> c = CHR 0x09 \<or> c = CHR 0x0A \<or> c = CHR 0x0D"

definition skip_ws :: "string \<Rightarrow> string" where
  "skip_ws s = dropWhile is_ws s"

definition hex_val :: "char \<Rightarrow> nat option" where
  "hex_val c =
     (if c \<in> set ''0123456789'' then Some ((of_char c :: nat) - 48)
      else if c \<in> set ''abcdef'' then Some ((of_char c :: nat) - 87)
      else if c \<in> set ''ABCDEF'' then Some ((of_char c :: nat) - 55)
      else None)"

text \<open>The four hexadecimal digits after \<^verbatim>\<open>\u\<close>.\<close>

definition decode_uXXXX :: "string \<Rightarrow> nat option" where
  "decode_uXXXX s =
     (case map hex_val (take 4 s) of
        [Some a, Some b, Some c, Some d] \<Rightarrow> Some (((a * 16 + b) * 16 + c) * 16 + d)
      | _ \<Rightarrow> None)"

text \<open>\<^verbatim>\<open>BACKSLASH\<close>: the one-character escapes.\<close>

definition backslash :: "char \<Rightarrow> char option" where
  "backslash e =
     (if e = dq then Some dq
      else if e = bs then Some bs
      else if e = CHR ''/'' then Some (CHR ''/'')
      else if e = CHR ''b'' then Some (CHR 0x08)
      else if e = CHR ''f'' then Some (CHR 0x0C)
      else if e = CHR ''n'' then Some (CHR 0x0A)
      else if e = CHR ''r'' then Some (CHR 0x0D)
      else if e = CHR ''t'' then Some (CHR 0x09)
      else None)"

definition push_char :: "char \<Rightarrow> exn + string \<times> string \<Rightarrow> exn + string \<times> string" where
  "push_char c r = (case r of Inl e \<Rightarrow> Inl e | Inr (s, rest) \<Rightarrow> Inr (c # s, rest))"

text \<open>
  \<^verbatim>\<open>scanstring\<close> in strict mode, from the character after the opening quote: it returns
  the string and the text after the closing quote. A control character, an unknown escape
  and a missing closing quote are decode errors. A \<^verbatim>\<open>\u\<close> escape is followed here only
  when it is four hexadecimal digits of a code point below 256.
\<close>

fun scanstring :: "string \<Rightarrow> exn + string \<times> string" where
  "scanstring [] = Inl JSONDecodeError"
| "scanstring (c # cs) =
     (if c = dq then Inr ([], cs)
      else if c = bs then
        (case cs of
           [] \<Rightarrow> Inl JSONDecodeError
         | e # cs' \<Rightarrow>
             if e = CHR ''u'' then
               (case decode_uXXXX cs' of
                  None \<Rightarrow> Inl Unmodelled
                | Some n \<Rightarrow>
                    if n < 256 then push_char (char_of n) (scanstring (drop 4 cs'))
                    else Inl Unmodelled)
             else
               (case backslash e of
                  None \<Rightarrow> Inl JSONDecodeError
                | Some ch \<Rightarrow> push_char ch (scanstring cs')))
      else if (of_char c :: nat) < 32 then Inl JSONDecodeError
      else push_char c (scanstring cs))"

text \<open>\<^verbatim>\<open>dict(pairs)\<close>: a repeated key keeps its first position and takes the last value.\<close>

definition dict_of_pairs :: "(string \<times> json) list \<Rightarrow> (string \<times> json) list" where
  "dict_of_pairs ps = foldl (\<lambda>d kv. AList.update (fst kv) (snd kv) d) [] ps"

text \<open>
  \<^verbatim>\<open>scan_once\<close>, \<^verbatim>\<open>JSONArray\<close> and \<^verbatim>\<open>JSONObject\<close>, each from the first character of
  what it reads, returning the value and the text left. The first argument is fuel, which
  only makes the recursion structural: every call takes one unit, a call passes on a text
  shorter by one character at least every second time, and \<open>json_loads\<close> starts with two
  units per character. The fuel is no nesting limit. A text that starts like a number,
  \<^verbatim>\<open>NaN\<close> or \<^verbatim>\<open>Infinity\<close> is \<open>Unmodelled\<close>.
\<close>

fun scan_once :: "nat \<Rightarrow> string \<Rightarrow> exn + json \<times> string"
  and JSONArray :: "nat \<Rightarrow> string \<Rightarrow> exn + json list \<times> string"
  and JSONObject :: "nat \<Rightarrow> string \<Rightarrow> exn + (string \<times> json) list \<times> string" where
  "scan_once 0 s = Inl Unmodelled"
| "scan_once (Suc n) [] = Inl JSONDecodeError"
| "scan_once (Suc n) (c # cs) =
     (if c = dq then
        (case scanstring cs of Inl e \<Rightarrow> Inl e | Inr (str, rest) \<Rightarrow> Inr (JStr str, rest))
      else if c = CHR ''{'' then
        (case skip_ws cs of
           [] \<Rightarrow> Inl JSONDecodeError
         | c' # cs' \<Rightarrow>
             if c' = CHR ''}'' then Inr (JObj [], cs')
             else (case JSONObject n (c' # cs') of
                     Inl e \<Rightarrow> Inl e
                   | Inr (pairs, rest) \<Rightarrow> Inr (JObj (dict_of_pairs pairs), rest)))
      else if c = CHR ''['' then
        (case skip_ws cs of
           [] \<Rightarrow> Inl JSONDecodeError
         | c' # cs' \<Rightarrow>
             if c' = CHR '']'' then Inr (JArr [], cs')
             else (case JSONArray n (c' # cs') of
                     Inl e \<Rightarrow> Inl e
                   | Inr (vs, rest) \<Rightarrow> Inr (JArr vs, rest)))
      else if c = CHR ''n'' then
        (if take 3 cs = ''ull'' then Inr (JNull, drop 3 cs) else Inl JSONDecodeError)
      else if c = CHR ''t'' then
        (if take 3 cs = ''rue'' then Inr (JBool True, drop 3 cs) else Inl JSONDecodeError)
      else if c = CHR ''f'' then
        (if take 4 cs = ''alse'' then Inr (JBool False, drop 4 cs) else Inl JSONDecodeError)
      else if c \<in> set ''-0123456789NI'' then Inl Unmodelled
      else Inl JSONDecodeError)"
| "JSONArray 0 s = Inl Unmodelled"
| "JSONArray (Suc n) s =
     (case scan_once n s of
        Inl e \<Rightarrow> Inl e
      | Inr (v, rest) \<Rightarrow>
          (case skip_ws rest of
             [] \<Rightarrow> Inl JSONDecodeError
           | c # cs \<Rightarrow>
               if c = CHR '']'' then Inr ([v], cs)
               else if c = CHR '','' then
                 (case JSONArray n (skip_ws cs) of
                    Inl e \<Rightarrow> Inl e
                  | Inr (vs, rest') \<Rightarrow> Inr (v # vs, rest'))
               else Inl JSONDecodeError))"
| "JSONObject 0 s = Inl Unmodelled"
| "JSONObject (Suc n) [] = Inl JSONDecodeError"
| "JSONObject (Suc n) (c # cs) =
     (if c \<noteq> dq then Inl JSONDecodeError
      else
        (case scanstring cs of
           Inl e \<Rightarrow> Inl e
         | Inr (key, rest) \<Rightarrow>
             (case skip_ws rest of
                [] \<Rightarrow> Inl JSONDecodeError
              | c1 # cs1 \<Rightarrow>
                  if c1 \<noteq> CHR '':'' then Inl JSONDecodeError
                  else
                    (case scan_once n (skip_ws cs1) of
                       Inl e \<Rightarrow> Inl e
                     | Inr (v, rest2) \<Rightarrow>
                         (case skip_ws rest2 of
                            [] \<Rightarrow> Inl JSONDecodeError
                          | c2 # cs2 \<Rightarrow>
                              if c2 = CHR ''}'' then Inr ([(key, v)], cs2)
                              else if c2 = CHR '','' then
                                (case JSONObject n (skip_ws cs2) of
                                   Inl e \<Rightarrow> Inl e
                                 | Inr (pairs, rest') \<Rightarrow> Inr ((key, v) # pairs, rest'))
                              else Inl JSONDecodeError)))))"

text \<open>
  \<^verbatim>\<open>JSONDecoder.decode\<close>: white space, one value, white space, and nothing else
  (anything else is the decode error "Extra data").
\<close>

definition json_loads :: "string \<Rightarrow> exn + json" where
  "json_loads s =
     (case scan_once (2 * length s + 2) (skip_ws s) of
        Inl e \<Rightarrow> Inl e
      | Inr (v, rest) \<Rightarrow> if skip_ws rest = [] then Inr v else Inl JSONDecodeError)"

section \<open>The file system and \<^verbatim>\<open>append_to_output_file\<close>\<close>

text \<open>
  A file system maps a path to the text of the file there; a path with no file maps to
  \<open>None\<close> (\<^verbatim>\<open>os.path.exists\<close> is false, \<^verbatim>\<open>open(path, 'r')\<close> raises).
\<close>

type_synonym path = string
type_synonym fs = "path \<rightharpoonup> string"

text \<open>
  A text all of whose characters are ASCII. Such a text has one byte per character in the
  file (UTF-8 and every other ASCII-compatible encoding), so positions and lengths in
  characters are positions and lengths in bytes. What \<^verbatim>\<open>json.dump\<close> writes is such a
  text (\<^verbatim>\<open>ensure_ascii\<close>).
\<close>

definition is_ascii :: "string \<Rightarrow> bool" where
  "is_ascii s \<longleftrightarrow> list_all (\<lambda>c. (of_char c :: nat) < 128) s"

text \<open>
  A file opened with \<^verbatim>\<open>'r+'\<close>, then \<^verbatim>\<open>f.seek(0)\<close> and a write of \<open>new\<close>, both texts
  ASCII: the write replaces the first \<open>length new\<close> bytes and nothing truncates the file,
  so whatever the old text had beyond them stays. (The write is that of a POSIX system:
  a line feed is written as it is.)
\<close>

definition write_at_start :: "string \<Rightarrow> string \<Rightarrow> string" where
  "write_at_start new old = new @ drop (length new) old"

text \<open>
  \<^verbatim>\<open>append_to_output_file(output_file, data)\<close>. An existing file is read and decoded:
  a decoded value that is not a list is wrapped in a one-element list, a
  \<^verbatim>\<open>JSONDecodeError\<close> starts an empty list, any other exception leaves the function.
  The list with \<open>data\<close> appended is written from position 0. With no file there,
  mode \<^verbatim>\<open>'w'\<close> creates it with the one-element list.

  An existing file with a character outside ASCII is \<open>Unmodelled\<close>: its bytes are more
  than its characters (or do not decode at all), and the write at position 0 replaces
  bytes, which \<open>write_at_start\<close> does not describe for such a text.
\<close>

definition append_to_output_file :: "fs \<Rightarrow> path \<Rightarrow> json \<Rightarrow> exn + fs" where
  "append_to_output_file fs output_file data =
     (case fs output_file of
        Some old \<Rightarrow>
          (if \<not> is_ascii old then Inl Unmodelled
           else
             (case json_loads old of
                Inr existing \<Rightarrow>
                  (let existing_data = (case existing of JArr xs \<Rightarrow> xs | _ \<Rightarrow> [existing])
                   in Inr (fs(output_file \<mapsto>
                        write_at_start (json_dumps (JArr (existing_data @ [data]))) old)))
              | Inl JSONDecodeError \<Rightarrow>
                  Inr (fs(output_file \<mapsto> write_at_start (json_dumps (JArr ([] @ [data]))) old))
              | Inl e \<Rightarrow> Inl e))
      | None \<Rightarrow> Inr (fs(output_file \<mapsto> json_dumps (JArr [data]))))"

text \<open>A run of appends, stopping at the first one that raises.\<close>

fun append_all :: "fs \<Rightarrow> path \<Rightarrow> json list \<Rightarrow> exn + fs" where
  "append_all fs output_file [] = Inr fs"
| "append_all fs output_file (r # rs) =
     (case append_to_output_file fs output_file r of
        Inl e \<Rightarrow> Inl e
      | Inr fs' \<Rightarrow> append_all fs' output_file rs)"

text \<open>What a reader of the output file finds: \<^verbatim>\<open>json.load(open(path))\<close>.\<close>

definition read_json :: "fs \<Rightarrow> path \<Rightarrow> exn + json" where
  "read_json fs p = (case fs p of None \<Rightarrow> Inl FileNotFoundError | Some text \<Rightarrow> json_loads text)"

text \<open>An append followed by a read of the file: what the caller finds there afterwards.\<close>

definition append_then_read :: "fs \<Rightarrow> path \<Rightarrow> json \<Rightarrow> exn + json" where
  "append_then_read fs output_file data =
     (case append_to_output_file fs output_file data of
        Inl e \<Rightarrow> Inl e
      | Inr fs' \<Rightarrow> read_json fs' output_file)"

text \<open>
  How deep the brackets of a text are nested, string literals left out: the deepest level
  that a scan from left to right reaches, an opening bracket outside a string going one
  level down and a closing one going one level up; inside a string a backslash hides the
  character after it, and a quote ends the string. On the part of a text that the decoder
  reads, this is how deep its calls are nested, so a text nested at most 100 deep is far
  from Python's recursion limit (1000 frames by default).
\<close>

fun nesting_from :: "bool \<Rightarrow> nat \<Rightarrow> string \<Rightarrow> nat" where
  "nesting_from in_string d [] = d"
| "nesting_from True d (c # cs) =
     max d (if c = bs then nesting_from True d (drop 1 cs)
            else nesting_from (c \<noteq> dq) d cs)"
| "nesting_from False d (c # cs) =
     max d (nesting_from (c = dq)
              (if c = CHR ''['' \<or> c = CHR ''{'' then Suc d
               else if c = CHR '']'' \<or> c = CHR ''}'' then d - 1
               else d) cs)"

definition nesting :: "string \<Rightarrow> nat" where
  "nesting s = nesting_from False 0 s"

text \<open>How deep the lists and dicts of a value are nested.\<close>

fun json_depth :: "json \<Rightarrow> nat"
  and json_depth_list :: "json list \<Rightarrow> nat"
  and json_depth_dict :: "(string \<times> json) list \<Rightarrow> nat" where
  "json_depth (JArr vs) = Suc (json_depth_list vs)"
| "json_depth (JObj kvs) = Suc (json_depth_dict kvs)"
| "json_depth v = 0"
| "json_depth_list [] = 0"
| "json_depth_list (v # vs) = max (json_depth v) (json_depth_list vs)"
| "json_depth_dict [] = 0"
| "json_depth_dict (kv # kvs) = max (json_depth (snd kv)) (json_depth_dict kvs)"

text \<open>Two result records, for the examples.\<close>

definition record_1 :: json where
  "record_1 = JObj [(''question'', JStr ''Why is sky blue?''),
                    (''correct_answer'', JStr ''Rayleigh scattering''),
                    (''distractor1'', JStr ''Mie scattering''),
                    (''distractor2'', JStr ''Reflection of the sea''),
                    (''distractor3'', JStr ''Ozone'')]"

definition record_2 :: json where
  "record_2 = JObj [(''question'', JStr ''What is H2O?''),
                    (''correct_answer'', JStr ''Water''),
                    (''distractor1'', JStr ''Salt''),
                    (''distractor2'', JStr ''Oxygen''),
                    (''distractor3'', JStr [])]"

section \<open>\<^verbatim>\<open>read_test_data_iter\<close>\<close>

text \<open>The dict the generator yields for one dataset entry.\<close>

record question_data =
  question :: json
  correct_answer :: json
  support :: json

text \<open>
  \<^verbatim>\<open>item[key]\<close> with a string key: a dict gives the value or \<^verbatim>\<open>KeyError\<close>; a list, a
  string, \<^verbatim>\<open>None\<close> and a bool give \<^verbatim>\<open>TypeError\<close>.
\<close>

definition getitem :: "json \<Rightarrow> string \<Rightarrow> exn + json" where
  "getitem item key =
     (case item of
        JObj kvs \<Rightarrow> (case map_of kvs key of None \<Rightarrow> Inl (KeyError key) | Some v \<Rightarrow> Inr v)
      | _ \<Rightarrow> Inl TypeError)"

text \<open>
  \<^verbatim>\<open>for item in test_data\<close>: a list gives its elements, a dict its keys, a string its
  characters; \<^verbatim>\<open>None\<close> and a bool are not iterable.
\<close>

definition iter_json :: "json \<Rightarrow> exn + json list" where
  "iter_json test_data =
     (case test_data of
        JArr xs \<Rightarrow> Inr xs
      | JObj kvs \<Rightarrow> Inr (map (\<lambda>kv. JStr (fst kv)) kvs)
      | JStr s \<Rightarrow> Inr (map (\<lambda>c. JStr [c]) s)
      | _ \<Rightarrow> Inl TypeError)"

definition yield_item :: "json \<Rightarrow> exn + question_data" where
  "yield_item item =
     (case getitem item ''question'' of
        Inl e \<Rightarrow> Inl e
      | Inr q \<Rightarrow>
          (case getitem item ''correct_answer'' of
             Inl e \<Rightarrow> Inl e
           | Inr c \<Rightarrow>
               (case getitem item ''support'' of
                  Inl e \<Rightarrow> Inl e
                | Inr s \<Rightarrow> Inr \<lparr>question = q, correct_answer = c, support = s\<rparr>)))"

text \<open>
  A generator is the list of what it yields and the exception that ends it, if one does:
  the entries before a bad entry are yielded before the exception is raised.
\<close>

fun yield_items :: "json list \<Rightarrow> question_data list \<times> exn option" where
  "yield_items [] = ([], None)"
| "yield_items (item # items) =
     (case yield_item item of
        Inl e \<Rightarrow> ([], Some e)
      | Inr q \<Rightarrow> (case yield_items items of (qs, err) \<Rightarrow> (q # qs, err)))"

definition read_test_data_iter :: "fs \<Rightarrow> path \<Rightarrow> question_data list \<times> exn option" where
  "read_test_data_iter fs test_file =
     (case fs test_file of
        None \<Rightarrow> ([], Some FileNotFoundError)
      | Some text \<Rightarrow>
          (case json_loads text of
             Inl e \<Rightarrow> ([], Some e)
           | Inr test_data \<Rightarrow>
               (case iter_json test_data of
                  Inl e \<Rightarrow> ([], Some e)
                | Inr items \<Rightarrow> yield_items items)))"

text \<open>\<^verbatim>\<open>sum(1 for _ in read_test_data_iter(test_file))\<close>: the pre-scan.\<close>

definition total_items :: "fs \<Rightarrow> path \<Rightarrow> exn + nat" where
  "total_items fs test_file =
     (case read_test_data_iter fs test_file of
        (qs, None) \<Rightarrow> Inr (length qs)
      | (qs, Some e) \<Rightarrow> Inl e)"

section \<open>\<^verbatim>\<open>process_test_data\<close>\<close>

text \<open>
  The state a run works on: the files, the progress bar (\<^verbatim>\<open>tqdm\<close>'s \<^verbatim>\<open>total\<close> and its
  counter \<^verbatim>\<open>n\<close>), the state of the model backend, and the prompts the backend was called
  with so far, oldest first. Timing and printing are left out.
\<close>

record 'g world =
  files :: fs
  pbar_total :: nat
  pbar_n :: nat
  backend :: 'g
  calls :: "string list"

text \<open>
  The collaborators that are not in \<^verbatim>\<open>run.py\<close>, each free to raise:
  \<^verbatim>\<open>pf.producePrompt(name, question_data[, extra])\<close>;
  \<open>generate\<close>, which is the tokenizer, \<^verbatim>\<open>model.generate\<close> and the decoding inside
  \<^verbatim>\<open>get_local_response\<close>, as a step on a backend state of any type, so that the same prompt
  may be answered differently each time;
  \<^verbatim>\<open>format_rationale_output(r, format)\<close>; and \<^verbatim>\<open>format_distractor_output(d)\<close>, which
  returns a dict of strings. The generation parameters are of any type \<open>'p\<close>.
\<close>

record ('g, 'p) env =
  producePrompt :: "string \<Rightarrow> question_data \<Rightarrow> string option \<Rightarrow> exn + string"
  generate :: "'g \<Rightarrow> string \<Rightarrow> 'p \<Rightarrow> 'p \<Rightarrow> 'p \<Rightarrow> (exn + string) \<times> 'g"
  format_rationale_output :: "string \<Rightarrow> string \<Rightarrow> exn + string"
  format_distractor_output :: "string \<Rightarrow> exn + (string \<rightharpoonup> string)"

text \<open>A step that may raise and may change the state; \<open>bind\<close> stops at the first raise.\<close>

type_synonym ('a, 'g) step = "'g world \<Rightarrow> (exn + 'a) \<times> 'g world"

definition bind :: "('a, 'g) step \<Rightarrow> ('a \<Rightarrow> ('b, 'g) step) \<Rightarrow> ('b, 'g) step" where
  "bind m f = (\<lambda>w. case m w of (Inl e, w') \<Rightarrow> (Inl e, w') | (Inr x, w') \<Rightarrow> f x w')"

definition pure_step :: "exn + 'a \<Rightarrow> ('a, 'g) step" where
  "pure_step r = (\<lambda>w. (r, w))"

text \<open>\<^verbatim>\<open>d[key]\<close> on a dict with string keys.\<close>

definition lookup :: "(string \<rightharpoonup> 'a) \<Rightarrow> string \<Rightarrow> exn + 'a" where
  "lookup d key = (case d key of None \<Rightarrow> Inl (KeyError key) | Some v \<Rightarrow> Inr v)"

definition get_local_response ::
  "('g, 'p) env \<Rightarrow> string \<Rightarrow> 'p \<Rightarrow> 'p \<Rightarrow> 'p \<Rightarrow> (string, 'g) step" where
  "get_local_response E prompt temperature top_p presence_penalty =
     (\<lambda>w. case generate E (backend w) prompt temperature top_p presence_penalty of
             (r, g') \<Rightarrow> (r, w\<lparr>backend := g', calls := calls w @ [prompt]\<rparr>))"

definition append_step :: "path \<Rightarrow> json \<Rightarrow> (unit, 'g) step" where
  "append_step output_file result =
     (\<lambda>w. case append_to_output_file (files w) output_file result of
             Inl e \<Rightarrow> (Inl e, w)
           | Inr fs' \<Rightarrow> (Inr (), w\<lparr>files := fs'\<rparr>))"

text \<open>The dict \<^verbatim>\<open>result\<close> that the loop builds for one entry.\<close>

definition result_record :: "question_data \<Rightarrow> string \<Rightarrow> string \<Rightarrow> string \<Rightarrow> json" where
  "result_record qd d1 d2 d3 =
     JObj [(''question'', question qd),
           (''correct_answer'', correct_answer qd),
           (''distractor1'', JStr d1),
           (''distractor2'', JStr d2),
           (''distractor3'', JStr d3)]"

text \<open>The \<^verbatim>\<open>try\<close> block of the loop, statement by statement.\<close>

definition try_block ::
  "('g, 'p) env \<Rightarrow> (string \<rightharpoonup> string) \<Rightarrow> string \<Rightarrow> 'p \<Rightarrow> 'p \<Rightarrow> 'p \<Rightarrow> path
     \<Rightarrow> question_data \<Rightarrow> (unit, 'g) step" where
  "try_block E prompt_config distractor_principle temperature top_p presence_penalty
       output_file qd =
     bind (pure_step (lookup prompt_config ''rg'')) (\<lambda>rg.
     bind (pure_step (producePrompt E rg qd (Some distractor_principle))) (\<lambda>rg_prompt.
     bind (get_local_response E rg_prompt temperature top_p presence_penalty) (\<lambda>r.
     bind (pure_step (lookup prompt_config ''format'')) (\<lambda>fmt.
     bind (pure_step (format_rationale_output E r fmt)) (\<lambda>inference.
     bind (pure_step (lookup prompt_config ''dg'')) (\<lambda>dg.
     bind (pure_step (producePrompt E dg qd None)) (\<lambda>dg_prompt.
     bind (get_local_response E dg_prompt temperature top_p presence_penalty) (\<lambda>d.
     bind (pure_step (format_distractor_output E d)) (\<lambda>extracted_distractors.
     bind (pure_step (lookup extracted_distractors ''distractor1'')) (\<lambda>d1.
     bind (pure_step (lookup extracted_distractors ''distractor2'')) (\<lambda>d2.
     bind (pure_step (lookup extracted_distractors ''distractor3'')) (\<lambda>d3.
     append_step output_file (result_record qd d1 d2 d3)))))))))))))"

text \<open>
  The loop body: the \<^verbatim>\<open>try\<close> block, then \<^verbatim>\<open>finally: pbar.update(1)\<close> whether the
  block raised or not; an exception of the block goes on after the update.
\<close>

definition loop_body ::
  "('g, 'p) env \<Rightarrow> (string \<rightharpoonup> string) \<Rightarrow> string \<Rightarrow> 'p \<Rightarrow> 'p \<Rightarrow> 'p \<Rightarrow> path
     \<Rightarrow> question_data \<Rightarrow> (unit, 'g) step" where
  "loop_body E prompt_config distractor_principle temperature top_p presence_penalty
       output_file qd =
     (\<lambda>w. case try_block E prompt_config distractor_principle temperature top_p
                  presence_penalty output_file qd w of
             (r, w') \<Rightarrow> (r, w'\<lparr>pbar_n := pbar_n w' + 1\<rparr>))"

text \<open>The \<^verbatim>\<open>for\<close> loop: an exception of the body leaves the loop.\<close>

fun for_loop ::
  "('g, 'p) env \<Rightarrow> (string \<rightharpoonup> string) \<Rightarrow> string \<Rightarrow> 'p \<Rightarrow> 'p \<Rightarrow> 'p \<Rightarrow> path
     \<Rightarrow> question_data list \<Rightarrow> (unit, 'g) step" where
  "for_loop E prompt_config distractor_principle temperature top_p presence_penalty
       output_file [] w = (Inr (), w)"
| "for_loop E prompt_config distractor_principle temperature top_p presence_penalty
       output_file (qd # qds) w =
     (case loop_body E prompt_config distractor_principle temperature top_p
             presence_penalty output_file qd w of
        (Inl e, w') \<Rightarrow> (Inl e, w')
      | (Inr u, w') \<Rightarrow>
          for_loop E prompt_config distractor_principle temperature top_p presence_penalty
            output_file qds w')"

text \<open>
  \<^verbatim>\<open>process_test_data\<close>: the pre-scan counts the entries (and raises what the generator
  raises); the bar starts at 0 of that total; the loop runs over a second generator on the
  same file, opened when the loop asks for its first entry.
\<close>

definition process_test_data ::
  "('g, 'p) env \<Rightarrow> path \<Rightarrow> path \<Rightarrow> (string \<rightharpoonup> string) \<Rightarrow> string \<Rightarrow> 'p \<Rightarrow> 'p \<Rightarrow> 'p
     \<Rightarrow> (unit, 'g) step" where
  "process_test_data E test_file output_file prompt_config distractor_principle
       temperature top_p presence_penalty =
     (\<lambda>w. case total_items (files w) test_file of
             Inl e \<Rightarrow> (Inl e, w)
           | Inr count \<Rightarrow>
               (let w1 = w\<lparr>pbar_total := count, pbar_n := 0\<rparr> in
                case read_test_data_iter (files w1) test_file of
                  (qds, err) \<Rightarrow>
                    (case for_loop E prompt_config distractor_principle temperature top_p
                            presence_penalty output_file qds w1 of
                       (Inl e, w2) \<Rightarrow> (Inl e, w2)
                     | (Inr u, w2) \<Rightarrow>
                         (case err of Some e \<Rightarrow> (Inl e, w2) | None \<Rightarrow> (Inr (), w2)))))"

section \<open>\<^verbatim>\<open>main\<close>: the path of the output file\<close>

text \<open>The command-line arguments \<^verbatim>\<open>main\<close> uses for the path.\<close>

record args =
  args_dataset :: string
  args_model :: string
  args_prompt :: string

text \<open>
  \<^verbatim>\<open>f"{file_config['output_file']}-{args.model}-{args.prompt}.json"\<close>, the configured
  base being a string.
\<close>

definition main_output_file :: "(string \<rightharpoonup> string) \<Rightarrow> args \<Rightarrow> exn + path" where
  "main_output_file file_config a =
     (case lookup file_config ''output_file'' of
        Inl e \<Rightarrow> Inl e
      | Inr base \<Rightarrow> Inr (base @ ''-'' @ args_model a @ ''-'' @ args_prompt a @ ''.json''))"

section \<open>The distractor extraction, from the specification\<close>

text \<open>
  Modelled from the spec: a slot of the extraction result. The specification (4.3) says
  that when fewer than three candidates are found, the missing slots are set to the empty
  string.
\<close>

definition slot :: "string list \<Rightarrow> nat \<Rightarrow> string" where
  "slot found i = (if i < length found then found ! i else [])"

text \<open>
  Modelled from the spec: \<^verbatim>\<open>format_distractor_output\<close> is imported from
  \<^verbatim>\<open>utils/utils.py\<close>, which is not among the sources. The specification (4.3,
  \<^verbatim>\<open>extractDistractors\<close>) says: it scans the raw text for enumerated items (numbered or
  bulleted); the first three in textual order win; if fewer than three are found, the
  missing slots are set to the empty string; it never raises. How an enumerated item is
  recognised is not fixed there, so the scan is a parameter: a function from the raw text
  to the candidates in textual order.
\<close>

definition extractDistractors :: "(string \<Rightarrow> string list) \<Rightarrow> string \<Rightarrow> (string \<rightharpoonup> string)" where
  "extractDistractors scan raw =
     (let found = take 3 (scan raw)
      in [''distractor1'' \<mapsto> slot found 0,
          ''distractor2'' \<mapsto> slot found 1,
          ''distractor3'' \<mapsto> slot found 2])"

text \<open>
  Modelled from the spec: one scan, used in the examples only. The specification's test
  fixtures (8) name the styles \<^verbatim>\<open>1. X\<close>, \<^verbatim>\<open>- X\<close> and \<^verbatim>\<open>(1) X\<close> and ask that
  surrounding white space does not matter; \<open>scan_enumerated\<close> takes each line that
  starts with such a marker and keeps what follows it, without the spaces around.
  \<open>split_lines\<close>, \<open>is_digit\<close>, \<open>strip_spaces\<close> and \<open>enumerated_item\<close> are its parts.
\<close>

fun split_lines :: "string \<Rightarrow> string list" where
  "split_lines [] = [[]]"
| "split_lines (c # cs) =
     (if c = CHR 0x0A then [] # split_lines cs
      else (case split_lines cs of [] \<Rightarrow> [[c]] | l # ls \<Rightarrow> (c # l) # ls))"

definition is_digit :: "char \<Rightarrow> bool" where
  "is_digit c \<longleftrightarrow> c \<in> set ''0123456789''"

definition strip_spaces :: "string \<Rightarrow> string" where
  "strip_spaces s =
     rev (dropWhile (\<lambda>c. c = CHR '' '') (rev (dropWhile (\<lambda>c. c = CHR '' '') s)))"

definition enumerated_item :: "string \<Rightarrow> string option" where
  "enumerated_item line =
     (let l = strip_spaces line; ds = takeWhile is_digit l; after = dropWhile is_digit l in
      if take 1 l = ''-'' then Some (strip_spaces (drop 1 l))
      else if ds \<noteq> [] \<and> take 1 after = ''.'' then Some (strip_spaces (drop 1 after))
      else if take 1 l = ''('' \<and> takeWhile is_digit (drop 1 l) \<noteq> []
              \<and> take 1 (dropWhile is_digit (drop 1 l)) = '')''
        then Some (strip_spaces (drop 1 (dropWhile is_digit (drop 1 l))))
      else None)"

definition scan_enumerated :: "string \<Rightarrow> string list" where
  "scan_enumerated raw = List.map_filter enumerated_item (split_lines raw)"

section \<open>A stub run, for the examples\<close>

text \<open>
  The end-to-end scenario of the specification (8): one question, a prompt framework that
  puts the template name before the extra text, and a backend that answers every prompt
  with the same text and counts its calls. \<open>stub_env\<close> answers with \<open>canned_text\<close>, which
  has two enumerated items; \<open>flaky_env k\<close> is the same with a backend that raises on its
  call number \<open>k\<close> (counted from 0).
\<close>

definition canned_text :: string where
  "canned_text = ''1. Mie scattering'' @ [CHR 0x0A] @ ''2. Reflection of the sea''"

definition stub_env_saying :: "string \<Rightarrow> (nat, unit) env" where
  "stub_env_saying answer =
     \<lparr>producePrompt = (\<lambda>name qd extra.
        Inr (name @ (case extra of None \<Rightarrow> [] | Some x \<Rightarrow> ''+'' @ x))),
      generate = (\<lambda>g prompt temperature top_p presence_penalty. (Inr answer, Suc g)),
      format_rationale_output = (\<lambda>r fmt. Inr r),
      format_distractor_output = (\<lambda>d. Inr (extractDistractors scan_enumerated d))\<rparr>"

definition stub_env :: "(nat, unit) env" where
  "stub_env = stub_env_saying canned_text"

definition flaky_env :: "nat \<Rightarrow> (nat, unit) env" where
  "flaky_env k =
     stub_env\<lparr>generate := (\<lambda>g prompt temperature top_p presence_penalty.
        if g = k then (Inl (ExternalError ''backend down''), Suc g)
        else (Inr canned_text, Suc g))\<rparr>"

definition stub_config :: "string \<rightharpoonup> string" where
  "stub_config = [''rg'' \<mapsto> ''rg_rule'', ''dg'' \<mapsto> ''dg_rule'', ''format'' \<mapsto> ''plain'']"

definition stub_question :: question_data where
  "stub_question =
     \<lparr>question = JStr ''Why is sky blue?'',
      correct_answer = JStr ''Rayleigh scattering'',
      support = JStr ''Light is scattered by the air.''\<rparr>"

definition stub_item :: json where
  "stub_item =
     JObj [(''question'', JStr ''Why is sky blue?''),
           (''correct_answer'', JStr ''Rayleigh scattering''),
           (''support'', JStr ''Light is scattered by the air.'')]"

text \<open>The record the stub run persists: the canned text has two candidates only.\<close>

definition stub_record :: json where
  "stub_record =
     JObj [(''question'', JStr ''Why is sky blue?''),
           (''correct_answer'', JStr ''Rayleigh scattering''),
           (''distractor1'', JStr ''Mie scattering''),
           (''distractor2'', JStr ''Reflection of the sea''),
           (''distractor3'', JStr [])]"

definition stub_world :: "nat world" where
  "stub_world =
     \<lparr>files = [''test.json'' \<mapsto> json_dumps (JArr [stub_item])],
      pbar_total = 0, pbar_n = 0, backend = 0, calls = []\<rparr>"

text \<open>A dataset of four entries, for a run that is cut short.\<close>

definition batch_world :: "nat world" where
  "batch_world =
     \<lparr>files = [''test.json'' \<mapsto> json_dumps (JArr [stub_item, stub_item, stub_item, stub_item])],
      pbar_total = 0, pbar_n = 0, backend = 0, calls = []\<rparr>"

section \<open>Auxiliary notions of the proofs\<close>

text \<open>
  A text that starts like an encoded value: its first character is not white space and not
  a closing bracket.
\<close>

definition starts_value :: "string \<Rightarrow> bool" where
  "starts_value s \<longleftrightarrow>
     (case s of [] \<Rightarrow> False | c # _ \<Rightarrow> \<not> is_ws c \<and> c \<noteq> CHR '']'' \<and> c \<noteq> CHR ''}'')"

section \<open>The decoder inverts the encoder\<close>

text \<open>
  First the string literals, character by character; then values, lists of items and
  lists of members together, by induction along the encoder; last, that the decoder only
  returns dicts without repeated keys.
\<close>

lemma hex_val_digit_all: "\<forall>n \<in> set [0..<16]. hex_val (hex_digit n) = Some n"
  by (simp add: upt_rec hex_val_def hex_digit_def)

lemma hex_val_digit: "n < 16 \<Longrightarrow> hex_val (hex_digit n) = Some n"
  using hex_val_digit_all by simp

lemma dq_bs [simp]: "dq \<noteq> bs" "bs \<noteq> dq" by (simp_all add: dq_def bs_def)

lemma decode_u:
  "decode_uXXXX
     (CHR ''0'' # CHR ''0'' # hex_digit (of_char c div 16) # hex_digit (of_char c mod 16) # t)
   = Some (of_char c)"
proof -
  have "(of_char c :: nat) < 256" by simp
  then have 1: "(of_char c :: nat) div 16 < 16" by arith
  have 2: "(of_char c :: nat) mod 16 < 16" by simp
  have 3: "hex_val (CHR ''0'') = Some 0" by (simp add: hex_val_def)
  show ?thesis
    by (simp add: decode_uXXXX_def hex_val_digit [OF 1] hex_val_digit [OF 2] 3)
qed

lemma scanstring_escape: "scanstring (escape_char c @ t) = push_char c (scanstring t)"
proof (cases "(of_char c :: nat) < 32 \<or> (of_char c :: nat) > 126")
  case True
  then have nu: "(of_char c :: nat) \<noteq> 92" "(of_char c :: nat) \<noteq> 34" by auto
  then have ne: "c \<noteq> bs" "c \<noteq> dq" by (auto simp: bs_def dq_def)
  have b: "backslash (CHR ''n'') = Some (CHR 0x0A)" "backslash (CHR ''r'') = Some (CHR 0x0D)"
    "backslash (CHR ''t'') = Some (CHR 0x09)" "backslash (CHR ''b'') = Some (CHR 0x08)"
    "backslash (CHR ''f'') = Some (CHR 0x0C)"
    by (simp_all add: backslash_def bs_def dq_def)
  have u: "CHR ''n'' \<noteq> CHR ''u''" "bs \<noteq> CHR ''u''" by (simp_all add: bs_def)
  from True ne show ?thesis
    by (simp add: escape_char_def decode_u b bs_def [symmetric]) 
next
  case False
  then have 1: "\<not> (of_char c :: nat) < 32" by simp
  have b: "backslash dq = Some dq" "backslash bs = Some bs" by (simp_all add: backslash_def)
  have u: "dq \<noteq> CHR ''u''" "bs \<noteq> CHR ''u''" by (simp_all add: bs_def dq_def)
  have c: "c \<noteq> CHR 0x0A" "c \<noteq> CHR 0x0D" "c \<noteq> CHR 0x09" "c \<noteq> CHR 0x08" "c \<noteq> CHR 0x0C"
    using 1 by auto
  show ?thesis using False 1
    by (simp add: escape_char_def b u c)
qed

lemma scanstring_concat: "scanstring (concat (map escape_char s) @ dq # rest) = Inr (s, rest)"
  by (induction s) (simp_all add: scanstring_escape push_char_def)

lemma skip_ws_newline_indent [simp]: "skip_ws (newline_indent l @ s) = skip_ws s"
  by (simp add: skip_ws_def newline_indent_def is_ws_def dropWhile_append)

lemma skip_ws_Cons: "\<not> is_ws c \<Longrightarrow> skip_ws (c # s) = c # s"
  by (simp add: skip_ws_def)

lemma skip_ws_space [simp]: "skip_ws (CHR '' '' # s) = skip_ws s"
  by (simp add: skip_ws_def is_ws_def)

lemma skip_ws_starts: "starts_value s \<Longrightarrow> skip_ws (s @ t) = s @ t"
  by (cases s) (simp_all add: starts_value_def skip_ws_def)

lemma starts_encode: "starts_value (encode_basestring_ascii s)"
  by (simp add: starts_value_def encode_basestring_ascii_def is_ws_def dq_def)

lemma starts_iterencode: "starts_value (iterencode l v)"
  by (cases v) (simp_all add: starts_value_def is_ws_def encode_basestring_ascii_def dq_def)

lemma starts_append: "starts_value s \<Longrightarrow> starts_value (s @ t)"
  by (cases s) (simp_all add: starts_value_def)

lemma starts_list: "vs \<noteq> [] \<Longrightarrow> starts_value (iterencode_list l vs)"
  by (cases vs) (simp_all add: starts_append starts_iterencode)

lemma starts_dict: "kvs \<noteq> [] \<Longrightarrow> starts_value (iterencode_dict l kvs)"
  by (cases kvs) (simp_all add: starts_append starts_encode)

lemma update_fresh: "k \<notin> fst ` set d \<Longrightarrow> AList.update k v d = d @ [(k, v)]"
  by (induction d) auto

lemma dict_of_pairs_aux:
  "distinct (map fst (d @ ps)) \<Longrightarrow>
   foldl (\<lambda>d kv. AList.update (fst kv) (snd kv) d) d ps = d @ ps"
proof (induction ps arbitrary: d)
  case Nil
  then show ?case by simp
next
  case (Cons p ps)
  from Cons.prems have "fst p \<notin> fst ` set d" by auto
  then have "AList.update (fst p) (snd p) d = d @ [p]" by (simp add: update_fresh)
  moreover from Cons.prems have "distinct (map fst ((d @ [p]) @ ps))" by simp
  ultimately show ?case using Cons.IH [of "d @ [p]"] by simp
qed

lemma dict_of_pairs_distinct: "distinct (map fst ps) \<Longrightarrow> dict_of_pairs ps = ps"
  using dict_of_pairs_aux [of "[]" ps] by (simp add: dict_of_pairs_def)

lemma scan_once_string:
  "scan_once (Suc n) (encode_basestring_ascii s @ rest) = Inr (JStr s, rest)"
proof -
  have "encode_basestring_ascii s @ rest = dq # (concat (map escape_char s) @ dq # rest)"
    by (simp add: encode_basestring_ascii_def)
  then show ?thesis by (simp add: scanstring_concat)
qed

lemma scan_once_array:
  assumes "starts_value s" "JSONArray n (s @ t) = Inr (vs, rest)"
  shows "scan_once (Suc n) (''['' @ newline_indent l @ s @ t) = Inr (JArr vs, rest)"
proof -
  obtain c cs where s: "s = c # cs" and c: "\<not> is_ws c" "c \<noteq> CHR '']''"
    using assms(1) by (cases s) (auto simp: starts_value_def)
  have "JSONArray n (c # cs @ t) = Inr (vs, rest)" using assms(2) s by simp
  moreover have "skip_ws (newline_indent l @ s @ t) = c # cs @ t"
    using c s by (simp add: skip_ws_Cons)
  ultimately show ?thesis using c by (simp add: dq_def)
qed

lemma scan_once_object:
  assumes "starts_value s" "JSONObject n (s @ t) = Inr (kvs, rest)"
  shows "scan_once (Suc n) (''{'' @ newline_indent l @ s @ t) = Inr (JObj (dict_of_pairs kvs), rest)"
proof -
  obtain c cs where s: "s = c # cs" and c: "\<not> is_ws c" "c \<noteq> CHR ''}''"
    using assms(1) by (cases s) (auto simp: starts_value_def)
  have "JSONObject n (c # cs @ t) = Inr (kvs, rest)" using assms(2) s by simp
  moreover have "skip_ws (newline_indent l @ s @ t) = c # cs @ t"
    using c s by (simp add: skip_ws_Cons)
  ultimately show ?thesis using c by (simp add: dq_def)
qed

lemma JSONArray_last:
  assumes "scan_once n s = Inr (v, newline_indent l @ CHR '']'' # rest)"
  shows "JSONArray (Suc n) s = Inr ([v], rest)"
proof -
  have "skip_ws (newline_indent l @ CHR '']'' # rest) = CHR '']'' # rest"
    by (simp add: skip_ws_Cons is_ws_def)
  with assms show ?thesis by simp
qed

lemma JSONArray_more:
  assumes "scan_once n s = Inr (v, CHR '','' # newline_indent l @ s')"
    and "starts_value s'" and "JSONArray n s' = Inr (vs, rest)"
  shows "JSONArray (Suc n) s = Inr (v # vs, rest)"
proof -
  have 1: "skip_ws (CHR '','' # newline_indent l @ s') = CHR '','' # newline_indent l @ s'"
    by (simp add: skip_ws_Cons is_ws_def)
  have 2: "skip_ws (newline_indent l @ s') = s'"
    using skip_ws_starts [OF assms(2), of "[]"] by simp
  from assms(1,3) 1 2 show ?thesis by simp
qed

lemma JSONObject_last:
  assumes "scan_once n s = Inr (v, newline_indent l @ CHR ''}'' # rest)" and "starts_value s"
  shows "JSONObject (Suc n) (encode_basestring_ascii k @ '': '' @ s) = Inr ([(k, v)], rest)"
proof -
  have e: "encode_basestring_ascii k @ '': '' @ s = dq # (concat (map escape_char k) @ dq # '': '' @ s)"
    by (simp add: encode_basestring_ascii_def)
  have 0: "skip_ws ('': '' @ s) = '': '' @ s" by (simp add: skip_ws_Cons is_ws_def)
  have 1: "skip_ws ('' '' @ s) = s" using skip_ws_starts [OF assms(2), of "[]"] by simp
  have 2: "skip_ws (newline_indent l @ CHR ''}'' # rest) = CHR ''}'' # rest"
    by (simp add: skip_ws_Cons is_ws_def)
  show ?thesis
    unfolding e using assms(1) 0 1 2 by (simp add: scanstring_concat)
qed

lemma JSONObject_more:
  assumes "scan_once n s = Inr (v, CHR '','' # newline_indent l @ s')" and "starts_value s"
    and "starts_value s'" and "JSONObject n s' = Inr (kvs, rest)"
  shows "JSONObject (Suc n) (encode_basestring_ascii k @ '': '' @ s) = Inr ((k, v) # kvs, rest)"
proof -
  have e: "encode_basestring_ascii k @ '': '' @ s = dq # (concat (map escape_char k) @ dq # '': '' @ s)"
    by (simp add: encode_basestring_ascii_def)
  have 0: "skip_ws ('': '' @ s) = '': '' @ s" by (simp add: skip_ws_Cons is_ws_def)
  have 1: "skip_ws ('' '' @ s) = s" using skip_ws_starts [OF assms(2), of "[]"] by simp
  have 2: "skip_ws (CHR '','' # newline_indent l @ s') = CHR '','' # newline_indent l @ s'"
    by (simp add: skip_ws_Cons is_ws_def)
  have 3: "skip_ws (newline_indent l @ s') = s'"
    using skip_ws_starts [OF assms(3), of "[]"] by simp
  show ?thesis
    unfolding e using assms(1,4) 0 1 2 3 by (simp add: scanstring_concat)
qed

lemma scan_once_atom:
  "v = JNull \<or> v = JBool b \<or> v = JArr [] \<or> v = JObj [] \<Longrightarrow>
   scan_once (Suc n) (iterencode l v @ rest) = Inr (v, rest)"
  by (auto simp: dq_def skip_ws_def is_ws_def)

lemma roundtrip_aux:
  "wf_json v \<Longrightarrow> 2 * length (iterencode l v) \<le> n \<Longrightarrow>
     scan_once n (iterencode l v @ rest) = Inr (v, rest)"
  "vs \<noteq> [] \<Longrightarrow> \<forall>v \<in> set vs. wf_json v \<Longrightarrow> 2 * length (iterencode_list l vs) + 1 \<le> n \<Longrightarrow>
     JSONArray n (iterencode_list l vs @ newline_indent l' @ CHR '']'' # rest) = Inr (vs, rest)"
  "kvs \<noteq> [] \<Longrightarrow> \<forall>kv \<in> set kvs. wf_json (snd kv) \<Longrightarrow> 2 * length (iterencode_dict l kvs) + 1 \<le> n \<Longrightarrow>
     JSONObject n (iterencode_dict l kvs @ newline_indent l' @ CHR ''}'' # rest) = Inr (kvs, rest)"
proof (induction l v and l vs and l kvs arbitrary: n rest and n rest l' and n rest l'
    rule: iterencode_iterencode_list_iterencode_dict.induct)
  case (1 level)
  then obtain m where n: "n = Suc m" by (cases n) auto
  show ?case unfolding n by (rule scan_once_atom) simp
next
  case (2 level b)
  then obtain m where n: "n = Suc m" by (cases n) (auto split: if_splits)
  show ?case unfolding n by (rule scan_once_atom [of _ b]) simp
next
  case (3 level s)
  have "encode_basestring_ascii s \<noteq> []" by (simp add: encode_basestring_ascii_def)
  with 3 obtain m where n: "n = Suc m" by (cases n) auto
  show ?case unfolding n iterencode.simps by (rule scan_once_string)
next
  case (4 level vs)
  show ?case
  proof (cases "vs = []")
    case True
    with 4 obtain m where n: "n = Suc m" by (cases n) auto
    show ?thesis unfolding n True by (rule scan_once_atom) simp
  next
    case False
    with 4 obtain m where n: "n = Suc m" by (cases n) auto
    have "2 * length (iterencode_list (Suc level) vs) + 1 \<le> m"
      using "4.prems" False n by simp
    with "4.IH" [OF False False, of m level rest] "4.prems" False
    have "JSONArray m (iterencode_list (Suc level) vs @ newline_indent level @ CHR '']'' # rest) = Inr (vs, rest)"
      by simp
    with scan_once_array [OF starts_list [OF False], of m "Suc level" "newline_indent level @ CHR '']'' # rest" vs rest "Suc level"]
    show ?thesis using False n by simp
  qed
next
  case (5 level kvs)
  show ?case
  proof (cases "kvs = []")
    case True
    with 5 obtain m where n: "n = Suc m" by (cases n) auto
    show ?thesis unfolding n True by (rule scan_once_atom) simp
  next
    case False
    with 5 obtain m where n: "n = Suc m" by (cases n) auto
    have "2 * length (iterencode_dict (Suc level) kvs) + 1 \<le> m"
      using "5.prems" False n by simp
    with "5.IH" [OF False False, of m level rest] "5.prems" False
    have "JSONObject m (iterencode_dict (Suc level) kvs @ newline_indent level @ CHR ''}'' # rest) = Inr (kvs, rest)"
      by simp
    with scan_once_object [OF starts_dict [OF False], of m "Suc level" "newline_indent level @ CHR ''}'' # rest" kvs rest "Suc level"]
    show ?thesis using False n "5.prems" by (simp add: dict_of_pairs_distinct)
  qed
next
  case (6 level)
  then show ?case by simp
next
  case (7 level v vs)
  from "7.prems" obtain m where n: "n = Suc m" by (cases n) auto
  have wfv: "wf_json v" using "7.prems" by simp
  show ?case
  proof (cases "vs = []")
    case True
    have "2 * length (iterencode level v) \<le> m" using "7.prems" n True by simp
    from "7.IH"(1) [OF wfv this]
    have "scan_once m (iterencode level v @ newline_indent l' @ CHR '']'' # rest)
          = Inr (v, newline_indent l' @ CHR '']'' # rest)" .
    from JSONArray_last [OF this] show ?thesis using True n by simp
  next
    case False
    let ?more = "iterencode_list level vs @ newline_indent l' @ CHR '']'' # rest"
    have "2 * length (iterencode level v) \<le> m" using "7.prems" n False by simp
    from "7.IH"(1) [OF wfv this]
    have a: "scan_once m (iterencode level v @ CHR '','' # newline_indent level @ ?more)
          = Inr (v, CHR '','' # newline_indent level @ ?more)" .
    have "2 * length (iterencode_list level vs) + 1 \<le> m" using "7.prems" n False by simp
    with "7.IH"(2) [OF False False, of m l' rest] "7.prems"
    have b: "JSONArray m ?more = Inr (vs, rest)" by simp
    have c: "starts_value ?more" using starts_append [OF starts_list [OF False]] by simp
    from JSONArray_more [OF a c b] show ?thesis using False n by simp
  qed
next
  case (8 level)
  then show ?case by simp
next
  case (9 level kv kvs)
  from "9.prems" obtain m where n: "n = Suc m" by (cases n) auto
  have wfv: "wf_json (snd kv)" using "9.prems" by simp
  have kv: "kv = (fst kv, snd kv)" by simp
  show ?case
  proof (cases "kvs = []")
    case True
    let ?s = "iterencode level (snd kv) @ newline_indent l' @ CHR ''}'' # rest"
    have "2 * length (iterencode level (snd kv)) \<le> m" using "9.prems" n True by simp
    from "9.IH"(1) [OF wfv this]
    have a: "scan_once m ?s = Inr (snd kv, newline_indent l' @ CHR ''}'' # rest)" .
    have c: "starts_value ?s" using starts_append [OF starts_iterencode] by simp
    from JSONObject_last [OF a c, of "fst kv"] show ?thesis using True n by simp
  next
    case False
    let ?more = "iterencode_dict level kvs @ newline_indent l' @ CHR ''}'' # rest"
    let ?s = "iterencode level (snd kv) @ CHR '','' # newline_indent level @ ?more"
    have "2 * length (iterencode level (snd kv)) \<le> m" using "9.prems" n False by simp
    from "9.IH"(1) [OF wfv this]
    have a: "scan_once m ?s = Inr (snd kv, CHR '','' # newline_indent level @ ?more)" .
    have "2 * length (iterencode_dict level kvs) + 1 \<le> m" using "9.prems" n False by simp
    with "9.IH"(2) [OF False False, of m l' rest] "9.prems"
    have b: "JSONObject m ?more = Inr (kvs, rest)" by simp
    have c: "starts_value ?more" using starts_append [OF starts_dict [OF False]] by simp
    have d: "starts_value ?s" using starts_append [OF starts_iterencode] by simp
    from JSONObject_more [OF a d c b, of "fst kv"] show ?thesis using False n by simp
  qed
qed

lemma set_update_subset: "set (AList.update k v d) \<subseteq> insert (k, v) (set d)"
  by (induction d) auto

lemma dict_fold_inv:
  "distinct (map fst d) \<Longrightarrow> \<forall>kv \<in> set d. P (snd kv) \<Longrightarrow> \<forall>kv \<in> set ps. P (snd kv) \<Longrightarrow>
   distinct (map fst (foldl (\<lambda>d kv. AList.update (fst kv) (snd kv) d) d ps))
   \<and> (\<forall>kv \<in> set (foldl (\<lambda>d kv. AList.update (fst kv) (snd kv) d) d ps). P (snd kv))"
proof (induction ps arbitrary: d)
  case Nil
  then show ?case by simp
next
  case (Cons p ps)
  have 1: "distinct (map fst (AList.update (fst p) (snd p) d))"
    using Cons.prems(1) by (simp add: distinct_update)
  have 2: "\<forall>kv \<in> set (AList.update (fst p) (snd p) d). P (snd kv)"
    using set_update_subset [of "fst p" "snd p" d] Cons.prems(2,3) by auto
  from Cons.IH [OF 1 2] Cons.prems(3) show ?case by simp
qed

lemma wf_dict_of_pairs:
  "\<forall>kv \<in> set ps. wf_json (snd kv) \<Longrightarrow> wf_json (JObj (dict_of_pairs ps))"
  using dict_fold_inv [of "[]" wf_json ps] by (simp add: dict_of_pairs_def)

lemma parse_wf:
  "scan_once n s = Inr (v, rest) \<Longrightarrow> wf_json v"
  "JSONArray n s = Inr (vs, rest) \<Longrightarrow> \<forall>v \<in> set vs. wf_json v"
  "JSONObject n s = Inr (kvs, rest) \<Longrightarrow> \<forall>kv \<in> set kvs. wf_json (snd kv)"
proof (induction n s and n s and n s arbitrary: v rest and vs rest and kvs rest
    rule: scan_once_JSONArray_JSONObject.induct)
  case (3 n c cs)
  show ?case
  proof (cases "c = CHR ''{''")
    case True
    then have cdq: "c \<noteq> dq" by (simp add: dq_def)
    show ?thesis
    proof (cases "skip_ws cs")
      case Nil
      with "3.prems" True cdq show ?thesis by simp
    next
      case (Cons c' cs')
      show ?thesis
      proof (cases "c' = CHR ''}''")
        case True
        with "3.prems" \<open>c = CHR ''{''\<close> cdq Cons show ?thesis by auto
      next
        case False
        with "3.prems" \<open>c = CHR ''{''\<close> cdq Cons
        obtain pairs where p: "JSONObject n (c' # cs') = Inr (pairs, rest)" "v = JObj (dict_of_pairs pairs)"
          by (auto split: sum.splits)
        from "3.IH"(1) [OF cdq \<open>c = CHR ''{''\<close> Cons False p(1)]
        show ?thesis using p(2) by (simp only: wf_dict_of_pairs)
      qed
    qed
  next
    case nobrace: False
    show ?thesis
    proof (cases "c = CHR ''[''")
      case True
      then have cdq: "c \<noteq> dq" by (simp add: dq_def)
      show ?thesis
      proof (cases "skip_ws cs")
        case Nil
        with "3.prems" True cdq show ?thesis by simp
      next
        case (Cons c' cs')
        show ?thesis
        proof (cases "c' = CHR '']''")
          case True
          with "3.prems" \<open>c = CHR ''[''\<close> cdq Cons show ?thesis by auto
        next
          case False
          with "3.prems" \<open>c = CHR ''[''\<close> cdq Cons nobrace
          obtain xs where p: "JSONArray n (c' # cs') = Inr (xs, rest)" "v = JArr xs"
            by (auto split: sum.splits)
          from "3.IH"(2) [OF cdq nobrace \<open>c = CHR ''[''\<close> Cons False p(1)]
          show ?thesis using p(2) by simp
        qed
      qed
    next
      case False
      with "3.prems" nobrace show ?thesis
        by (auto split: if_splits sum.splits)
    qed
  qed
next
  case (5 n s)
  from "5.prems" obtain v r1 where a: "scan_once n s = Inr (v, r1)"
    by (auto split: sum.splits)
  note wfv = "5.IH"(1) [OF a]
  from "5.prems" a obtain c cs where b: "skip_ws r1 = c # cs"
    by (auto split: list.splits)
  show ?case
  proof (cases "c = CHR '']''")
    case True
    with "5.prems" a b wfv show ?thesis by auto
  next
    case False
    with "5.prems" a b have comma: "c = CHR '',''" by (auto split: if_splits)
    with "5.prems" a b False obtain ws where
      c: "JSONArray n (skip_ws cs) = Inr (ws, rest)" "vs = v # ws"
      by (auto split: sum.splits)
    from "5.IH"(2) [OF a refl b False comma c(1)] wfv c(2) show ?thesis by simp
  qed
next
  case (8 n c cs)
  from "8.prems" have cdq: "\<not> c \<noteq> dq" by (auto split: if_splits)
  from "8.prems" cdq obtain key r0 where a: "scanstring cs = Inr (key, r0)"
    by (auto split: sum.splits)
  from "8.prems" cdq a obtain c1 cs1 where b: "skip_ws r0 = c1 # cs1"
    by (auto split: list.splits)
  from "8.prems" cdq a b have colon: "\<not> c1 \<noteq> CHR '':''" by (auto split: if_splits)
  from "8.prems" cdq a b colon obtain v r2 where d: "scan_once n (skip_ws cs1) = Inr (v, r2)"
    by (auto split: sum.splits)
  note wfv = "8.IH"(1) [OF cdq a refl b colon d]
  from "8.prems" cdq a b colon d obtain c2 cs2 where e: "skip_ws r2 = c2 # cs2"
    by (auto split: list.splits)
  show ?case
  proof (cases "c2 = CHR ''}''")
    case True
    with "8.prems" cdq a b colon d e wfv show ?thesis by auto
  next
    case False
    with "8.prems" cdq a b colon d e have comma: "c2 = CHR '',''" by (auto split: if_splits)
    with "8.prems" cdq a b colon d e False obtain ps where
      f: "JSONObject n (skip_ws cs2) = Inr (ps, rest)" "kvs = (key, v) # ps"
      by (auto split: sum.splits)
    from "8.IH"(2) [OF cdq a refl b colon d refl e False comma f(1)] wfv f(2)
    show ?thesis by simp
  qed
qed simp_all

lemma json_loads_wf: "json_loads s = Inr v \<Longrightarrow> wf_json v"
  by (auto simp: json_loads_def split: sum.splits if_splits dest: parse_wf(1))

text \<open>The encoder writes ASCII only.\<close>

lemma is_ascii_simps [simp]:
  "is_ascii []"
  "is_ascii (c # s) \<longleftrightarrow> (of_char c :: nat) < 128 \<and> is_ascii s"
  "is_ascii (s @ t) \<longleftrightarrow> is_ascii s \<and> is_ascii t"
  by (simp_all add: is_ascii_def)

lemma is_ascii_concat: "(\<And>x. x \<in> set xs \<Longrightarrow> is_ascii x) \<Longrightarrow> is_ascii (concat xs)"
  by (induction xs) simp_all

lemma hex_digit_ascii_all: "\<forall>n \<in> set [0..<16]. (of_char (hex_digit n) :: nat) < 128"
  by (simp add: upt_rec hex_digit_def)

lemma hex_digit_ascii: "n < 16 \<Longrightarrow> (of_char (hex_digit n) :: nat) < 128"
  using hex_digit_ascii_all by simp

lemma is_ascii_escape_char: "is_ascii (escape_char c)"
proof -
  have "(of_char c :: nat) < 256" by simp
  then have 1: "(of_char c :: nat) div 16 < 16" by arith
  have 2: "(of_char c :: nat) mod 16 < 16" by simp
  show ?thesis
    by (simp add: escape_char_def bs_def dq_def hex_digit_ascii [OF 1] hex_digit_ascii [OF 2])
qed

lemma is_ascii_encode_basestring: "is_ascii (encode_basestring_ascii s)"
proof -
  have "is_ascii (concat (map escape_char s))"
    by (rule is_ascii_concat) (auto simp: is_ascii_escape_char)
  then show ?thesis by (simp add: encode_basestring_ascii_def dq_def)
qed

lemma is_ascii_newline_indent: "is_ascii (newline_indent l)"
  by (simp add: newline_indent_def is_ascii_def list_all_iff)

lemma is_ascii_iterencode:
  "is_ascii (iterencode l v)"
  "is_ascii (iterencode_list l vs)"
  "is_ascii (iterencode_dict l kvs)"
  by (induction l v and l vs and l kvs rule: iterencode_iterencode_list_iterencode_dict.induct)
    (simp_all add: is_ascii_encode_basestring is_ascii_newline_indent)

lemma is_ascii_dumps: "is_ascii (json_dumps v)"
  by (simp add: json_dumps_def is_ascii_iterencode)

section \<open>Appending to a file\<close>

text \<open>
  The text of an array grows with every element added, so a write from position 0 covers
  the text of the array it extends.
\<close>

lemma json_loads_dumps: "wf_json v \<Longrightarrow> json_loads (json_dumps v) = Inr v"
proof -
  assume wf: "wf_json v"
  have 1: "skip_ws (iterencode 0 v) = iterencode 0 v"
    using skip_ws_starts [OF starts_iterencode, of 0 v "[]"] by simp
  have "scan_once (2 * length (iterencode 0 v) + 2) (iterencode 0 v @ []) = Inr (v, [])"
    by (rule roundtrip_aux(1) [OF wf]) simp
  moreover have "skip_ws [] = []" by (simp add: skip_ws_def)
  ultimately show ?thesis by (simp add: json_loads_def json_dumps_def 1)
qed

lemma iterencode_list_snoc:
  "xs \<noteq> [] \<Longrightarrow> iterencode_list l (xs @ [r]) =
     iterencode_list l xs @ '','' @ newline_indent l @ iterencode l r"
  by (induction xs) auto

lemma length_dumps_snoc:
  "length (json_dumps (JArr xs)) \<le> length (json_dumps (JArr (xs @ [r])))"
proof (cases "xs = []")
  case True
  then show ?thesis by (simp add: json_dumps_def newline_indent_def)
next
  case False
  then show ?thesis by (simp add: json_dumps_def iterencode_list_snoc)
qed

lemma write_at_start_covers: "length old \<le> length new \<Longrightarrow> write_at_start new old = new"
  by (simp add: write_at_start_def)

lemma append_to_array_file:
  assumes "fs p = Some (json_dumps (JArr xs))" and "\<forall>x \<in> set xs. wf_json x"
  shows "append_to_output_file fs p r = Inr (fs(p \<mapsto> json_dumps (JArr (xs @ [r]))))"
proof -
  have "json_loads (json_dumps (JArr xs)) = Inr (JArr xs)"
    using assms(2) by (intro json_loads_dumps) simp
  then show ?thesis
    using assms(1)
    by (simp add: append_to_output_file_def write_at_start_covers length_dumps_snoc
        is_ascii_dumps)
qed

lemma append_to_absent_file:
  "fs p = None \<Longrightarrow> append_to_output_file fs p r = Inr (fs(p \<mapsto> json_dumps (JArr [r])))"
  by (simp add: append_to_output_file_def)

lemma append_all_array_file:
  assumes "fs p = Some (json_dumps (JArr xs))" and "\<forall>x \<in> set xs. wf_json x"
    and "\<forall>r \<in> set rs. wf_json r"
  shows "append_all fs p rs = Inr (fs(p \<mapsto> json_dumps (JArr (xs @ rs))))"
  using assms
proof (induction rs arbitrary: fs xs)
  case Nil
  then show ?case by (simp add: fun_upd_idem)
next
  case (Cons r rs)
  let ?fs = "fs(p \<mapsto> json_dumps (JArr (xs @ [r])))"
  have 1: "append_to_output_file fs p r = Inr ?fs"
    using Cons.prems(1,2) by (rule append_to_array_file)
  have "append_all ?fs p rs = Inr (fs(p \<mapsto> json_dumps (JArr ((xs @ [r]) @ rs))))"
    using Cons.IH [of ?fs "xs @ [r]"] Cons.prems by (simp add: fun_upd_def fun_eq_iff cong: if_cong)
  with 1 show ?case by (simp add: fun_upd_def)
qed

lemma append_all_absent_file:
  assumes "fs p = None" and "rs \<noteq> []" and "\<forall>r \<in> set rs. wf_json r"
  shows "append_all fs p rs = Inr (fs(p \<mapsto> json_dumps (JArr rs)))"
proof -
  obtain r rs' where rs: "rs = r # rs'" using assms(2) by (cases rs) auto
  let ?fs = "fs(p \<mapsto> json_dumps (JArr [r]))"
  have "append_all ?fs p rs' = Inr (fs(p \<mapsto> json_dumps (JArr ([r] @ rs'))))"
    using append_all_array_file [of ?fs p "[r]" rs'] assms(3) rs by (simp add: fun_upd_def fun_eq_iff cong: if_cong)
  then show ?thesis using assms(1) rs by (simp add: append_to_absent_file)
qed

lemma append_existing_file:
  assumes there: "fs p = Some old"
    and ascii: "is_ascii old"
    and decoded: "json_loads old = Inl JSONDecodeError \<and> xs = []
         \<or> json_loads old = Inr (JArr xs)
         \<or> (\<exists>v. json_loads old = Inr v \<and> (\<forall>ys. v \<noteq> JArr ys) \<and> xs = [v])"
    and covers: "length old \<le> length (json_dumps (JArr (xs @ [r])))"
  shows "append_to_output_file fs p r = Inr (fs(p \<mapsto> json_dumps (JArr (xs @ [r]))))"
proof -
  have w: "write_at_start (json_dumps (JArr (xs @ [r]))) old = json_dumps (JArr (xs @ [r]))"
    using covers by (rule write_at_start_covers)
  from decoded consider
      (err) "json_loads old = Inl JSONDecodeError" "xs = []"
    | (arr) "json_loads old = Inr (JArr xs)"
    | (other) v where "json_loads old = Inr v" "\<forall>ys. v \<noteq> JArr ys" "xs = [v]"
    by blast
  then show ?thesis
  proof cases
    case err
    with there ascii w show ?thesis by (simp add: append_to_output_file_def)
  next
    case arr
    with there ascii w show ?thesis by (simp add: append_to_output_file_def)
  next
    case other
    with there ascii w show ?thesis
      by (cases v) (simp_all add: append_to_output_file_def)
  qed
qed

lemma append_then_read_existing:
  assumes there: "fs p = Some old"
    and ascii: "is_ascii old"
    and decoded: "json_loads old = Inl JSONDecodeError \<and> xs = []
         \<or> json_loads old = Inr (JArr xs)
         \<or> (\<exists>v. json_loads old = Inr v \<and> (\<forall>ys. v \<noteq> JArr ys) \<and> xs = [v])"
    and covers: "length old \<le> length (json_dumps (JArr (xs @ [r])))"
    and wf: "wf_json r"
  shows "append_then_read fs p r = Inr (JArr (xs @ [r]))"
proof -
  have "\<forall>x \<in> set xs. wf_json x"
    using decoded by (auto dest: json_loads_wf)
  then have "json_loads (json_dumps (JArr (xs @ [r]))) = Inr (JArr (xs @ [r]))"
    using wf by (intro json_loads_dumps) auto
  then show ?thesis
    using append_existing_file [of fs p old xs r] there ascii decoded covers
    by (simp add: append_then_read_def read_json_def)
qed

lemma iterencode_length: "2 \<le> length (iterencode l v)"
  by (cases v) (simp_all add: encode_basestring_ascii_def)

lemma dumps_array_length: "10 \<le> length (json_dumps (JArr (xs @ [r])))"
proof -
  have "2 \<le> length (iterencode_list (Suc 0) (xs @ [r]))"
  proof (cases xs)
    case Nil
    then show ?thesis using iterencode_length [of "Suc 0" r] by simp
  next
    case (Cons x xs')
    then show ?thesis using iterencode_length [of "Suc 0" x] by simp
  qed
  then show ?thesis by (simp add: json_dumps_def newline_indent_def)
qed

lemma wf_records: "wf_json record_1" "wf_json record_2"
  by (simp_all add: record_1_def record_2_def)

section \<open>The claims about \<^verbatim>\<open>append_to_output_file\<close>\<close>

text \<open>
  C1. Start from a file system with no output file and append the records \<open>rs\<close> one
  after the other, then one more record \<open>r\<close>: every append returns, and after the last
  one the file decodes to one JSON array, the records appended before in their order
  followed by \<open>r\<close>. As \<open>rs\<close> is any list, this holds after each append of a run; with
  \<open>rs = [r1]\<close> and \<open>r = r2\<close> the file decodes to exactly \<open>[r1, r2]\<close>. A record is any
  value a Python dict tree can be (\<open>wf_json\<close>: no key twice in a dict).
\<close>

theorem append_round_trip:
  assumes "fs output_file = None" and "\<forall>r \<in> set rs. wf_json r" and "wf_json r"
  shows "\<exists>fs1 fs2. append_all fs output_file rs = Inr fs1
           \<and> append_to_output_file fs1 output_file r = Inr fs2
           \<and> read_json fs2 output_file = Inr (JArr (rs @ [r]))"
proof (cases "rs = []")
  case True
  have "json_loads (json_dumps (JArr [r])) = Inr (JArr [r])"
    using assms(3) by (intro json_loads_dumps) simp
  then show ?thesis using True assms(1) by (simp add: append_to_absent_file read_json_def)
next
  case False
  let ?fs1 = "fs(output_file \<mapsto> json_dumps (JArr rs))"
  have 1: "append_all fs output_file rs = Inr ?fs1"
    using assms(1) False assms(2) by (rule append_all_absent_file)
  have 2: "append_to_output_file ?fs1 output_file r
           = Inr (fs(output_file \<mapsto> json_dumps (JArr (rs @ [r]))))"
    using append_to_array_file [of ?fs1 output_file rs r] assms(2) by (simp add: fun_upd_def fun_eq_iff cong: if_cong)
  have "json_loads (json_dumps (JArr (rs @ [r]))) = Inr (JArr (rs @ [r]))"
    using assms(2,3) by (intro json_loads_dumps) auto
  with 1 2 show ?thesis by (simp add: read_json_def)
qed
theorem append_round_trip_witness:
  "(Map.empty :: fs) ''out.json'' = None \<and> wf_json record_1 \<and> wf_json record_2
   \<and> (\<exists>fs1 fs2. append_all Map.empty ''out.json'' [record_1] = Inr fs1
           \<and> append_to_output_file fs1 ''out.json'' record_2 = Inr fs2
           \<and> read_json fs2 ''out.json'' = Inr (JArr ([record_1] @ [record_2])))"
  using append_round_trip [of Map.empty "''out.json''" "[record_1]" record_2]
  by (simp add: wf_records)

text \<open>
  C2, as stated, fails: an output file that holds the valid JSON text \<^verbatim>\<open>{}\<close>, which is not
  an array, is not treated as empty. The \<^verbatim>\<open>isinstance\<close> branch wraps the decoded value in
  a list, so after the append the file decodes to \<open>[{}, r]\<close> and not to \<open>[r]\<close>.
\<close>

theorem non_array_content_is_kept:
  "json_loads ''{}'' = Inr (JObj [])
   \<and> append_then_read [''out.json'' \<mapsto> ''{}''] ''out.json'' record_1
       = Inr (JArr [JObj [], record_1])
   \<and> append_then_read [''out.json'' \<mapsto> ''{}''] ''out.json'' record_1 \<noteq> Inr (JArr [record_1])"
proof -
  have l: "json_loads ''{}'' = Inr (JObj [])"
    by code_simp
  have a: "is_ascii ''{}''" by simp
  have "length ''{}'' \<le> length (json_dumps (JArr ([JObj []] @ [record_1])))"
    using dumps_array_length [of "[JObj []]" record_1] by simp
  with append_then_read_existing [of "[''out.json'' \<mapsto> ''{}'']" "''out.json''" "''{}''" "[JObj []]" record_1] wf_records(1) l a
  have "append_then_read [''out.json'' \<mapsto> ''{}''] ''out.json'' record_1
       = Inr (JArr [JObj [], record_1])" by simp
  with l show ?thesis by simp
qed

text \<open>
  C2, amended. Let the output file exist with the text \<open>old\<close>, where \<open>old\<close> is ASCII, has
  its brackets nested at most 100 deep and is no longer than the text the append writes,
  and let the record \<open>r\<close> be nested at most 100 deep. If \<open>old\<close> does not decode
  (\<^verbatim>\<open>JSONDecodeError\<close>), the append returns and the file decodes to exactly \<open>[r]\<close>. If
  \<open>old\<close> decodes to a value \<open>v\<close> that is not an array, the append returns and the file
  decodes to \<open>[v, r]\<close>: \<open>v\<close> is kept as the first element.

  What the bounds leave out: an old text longer than the new one, which keeps its tail
  because the write does not truncate the file; an old text with a character outside
  ASCII, whose bytes are more than its characters; and a nesting that reaches Python's
  recursion limit, where \<^verbatim>\<open>json.load\<close> or \<^verbatim>\<open>json.dump\<close> raises \<^verbatim>\<open>RecursionError\<close>, which
  the \<^verbatim>\<open>except\<close> clause does not catch. The two nesting bounds say where the model is the
  program; the proof does not use them.
\<close>

theorem append_on_unusable_content:
  assumes "fs output_file = Some old"
    and "is_ascii old" and "nesting old \<le> 100"
    and "wf_json r" and "json_depth r \<le> 100"
  shows "(json_loads old = Inl JSONDecodeError
            \<and> length old \<le> length (json_dumps (JArr [r]))
          \<longrightarrow> append_then_read fs output_file r = Inr (JArr [r]))
       \<and> (\<forall>v. json_loads old = Inr v \<and> (\<forall>ys. v \<noteq> JArr ys)
            \<and> length old \<le> length (json_dumps (JArr [v, r]))
          \<longrightarrow> append_then_read fs output_file r = Inr (JArr [v, r]))"
proof (intro conjI allI impI)
  assume "json_loads old = Inl JSONDecodeError \<and> length old \<le> length (json_dumps (JArr [r]))"
  then show "append_then_read fs output_file r = Inr (JArr [r])"
    using append_then_read_existing [of fs output_file old "[]" r] assms(1,2,4) by simp
next
  fix v
  assume "json_loads old = Inr v \<and> (\<forall>ys. v \<noteq> JArr ys)
            \<and> length old \<le> length (json_dumps (JArr [v, r]))"
  then show "append_then_read fs output_file r = Inr (JArr [v, r])"
    using append_then_read_existing [of fs output_file old "[v]" r] assms(1,2,4) by simp
qed

theorem append_on_unusable_content_witness:
  "[''out.json'' \<mapsto> ''garbage''] ''out.json'' = Some ''garbage''
   \<and> is_ascii ''garbage'' \<and> nesting ''garbage'' \<le> 100
   \<and> wf_json record_1 \<and> json_depth record_1 \<le> 100
   \<and> json_loads ''garbage'' = Inl JSONDecodeError
   \<and> length ''garbage'' \<le> length (json_dumps (JArr [record_1]))
   \<and> append_then_read [''out.json'' \<mapsto> ''garbage''] ''out.json'' record_1 = Inr (JArr [record_1])
   \<and> [''out.json'' \<mapsto> ''null''] ''out.json'' = Some ''null''
   \<and> is_ascii ''null'' \<and> nesting ''null'' \<le> 100
   \<and> json_loads ''null'' = Inr JNull \<and> (\<forall>ys. JNull \<noteq> JArr ys)
   \<and> length ''null'' \<le> length (json_dumps (JArr [JNull, record_1]))
   \<and> append_then_read [''out.json'' \<mapsto> ''null''] ''out.json'' record_1
       = Inr (JArr [JNull, record_1])"
proof -
  have g: "json_loads ''garbage'' = Inl JSONDecodeError" by code_simp
  have n: "json_loads ''null'' = Inr JNull" by code_simp
  have ag: "is_ascii ''garbage''" "is_ascii ''null''" by simp_all
  have ng: "nesting ''garbage'' \<le> 100" "nesting ''null'' \<le> 100" by code_simp+
  have d: "json_depth record_1 \<le> 100" by (simp add: record_1_def)
  have lg: "length ''garbage'' \<le> length (json_dumps (JArr [record_1]))"
    using dumps_array_length [of "[]" record_1] by simp
  have ln: "length ''null'' \<le> length (json_dumps (JArr [JNull, record_1]))"
    using dumps_array_length [of "[JNull]" record_1] by simp
  have 1: "append_then_read [''out.json'' \<mapsto> ''garbage''] ''out.json'' record_1
           = Inr (JArr [record_1])"
    using append_on_unusable_content
      [of "[''out.json'' \<mapsto> ''garbage'']" "''out.json''" "''garbage''" record_1]
      wf_records(1) g lg ag(1) ng(1) d by simp
  have 2: "append_then_read [''out.json'' \<mapsto> ''null''] ''out.json'' record_1
           = Inr (JArr [JNull, record_1])"
    using append_on_unusable_content
      [of "[''out.json'' \<mapsto> ''null'']" "''out.json''" "''null''" record_1]
      wf_records(1) n ln ag(2) ng(2) d by simp
  from g n lg ln 1 2 wf_records(1) ag ng d show ?thesis by simp
qed

text \<open>
  What the amended C2 leaves out, in examples. An old text longer than the new one keeps
  its tail: here the file held 30 characters that are not JSON; after the append of the
  string \<open>r\<close> it holds the 11 characters of the new array followed by the last 19 old ones,
  and does not decode. An old text with a character outside ASCII is not described.
\<close>

lemma append_leaves_old_tail:
  "append_to_output_file [''out.json'' \<mapsto> replicate 30 (CHR ''x'')] ''out.json'' (JStr ''r'')
     = Inr [''out.json'' \<mapsto> json_dumps (JArr [JStr ''r'']) @ replicate 19 (CHR ''x'')]
   \<and> append_then_read [''out.json'' \<mapsto> replicate 30 (CHR ''x'')] ''out.json'' (JStr ''r'')
     = Inl JSONDecodeError"
proof -
  have old: "json_loads (replicate 30 (CHR ''x'')) = Inl JSONDecodeError"
    by code_simp
  have asc: "is_ascii (replicate 30 (CHR ''x''))"
    by code_simp
  have len: "length (json_dumps (JArr [JStr ''r''])) = 11"
    by code_simp
  have new: "json_loads (json_dumps (JArr [JStr ''r'']) @ replicate 19 (CHR ''x''))
             = Inl JSONDecodeError"
    by code_simp
  have "append_to_output_file [''out.json'' \<mapsto> replicate 30 (CHR ''x'')] ''out.json''
          (JStr ''r'')
        = Inr [''out.json'' \<mapsto> json_dumps (JArr [JStr ''r'']) @ replicate 19 (CHR ''x'')]"
    by (simp add: append_to_output_file_def old asc write_at_start_def len)
  then show ?thesis by (simp add: append_then_read_def read_json_def new)
qed

lemma append_to_non_ascii_file:
  "append_to_output_file [''out.json'' \<mapsto> replicate 10 (CHR 0xE9)] ''out.json'' (JStr ''r'')
     = Inl Unmodelled"
proof -
  have "\<not> is_ascii (replicate 10 (CHR 0xE9))" by code_simp
  then show ?thesis by (simp add: append_to_output_file_def)
qed

section \<open>Steps, the loop body and the loop\<close>

text \<open>
  What one pass of the \<^verbatim>\<open>try\<close> block can do to the state, by cases on the step that
  raises; then the loop, by induction on the entries; then the stub runs, evaluated.
\<close>

lemmas step_defs =
  try_block_def bind_def pure_step_def get_local_response_def append_step_def lookup_def

lemma try_block_raises:
  "try_block E cfg pr t tp pp out qd w = (Inl e, w') \<Longrightarrow>
     files w' = files w \<and> pbar_n w' = pbar_n w \<and> pbar_total w' = pbar_total w
     \<and> length (calls w') \<le> length (calls w) + 2"
  unfolding step_defs
  by (auto split: sum.splits prod.splits option.splits)

lemma try_block_returns:
  assumes "try_block E cfg pr t tp pp out qd w = (Inr u, w')"
  shows "\<exists>rg p1 r g1 fmt rat dg p2 d g2 ex d1 d2 d3 fs'.
      cfg ''rg'' = Some rg \<and> producePrompt E rg qd (Some pr) = Inr p1
    \<and> generate E (backend w) p1 t tp pp = (Inr r, g1)
    \<and> cfg ''format'' = Some fmt \<and> format_rationale_output E r fmt = Inr rat
    \<and> cfg ''dg'' = Some dg \<and> producePrompt E dg qd None = Inr p2
    \<and> generate E g1 p2 t tp pp = (Inr d, g2)
    \<and> format_distractor_output E d = Inr ex
    \<and> ex ''distractor1'' = Some d1 \<and> ex ''distractor2'' = Some d2
    \<and> ex ''distractor3'' = Some d3
    \<and> append_to_output_file (files w) out (result_record qd d1 d2 d3) = Inr fs'
    \<and> w' = w\<lparr>backend := g2, calls := calls w @ [p1, p2], files := fs'\<rparr>"
  using assms unfolding step_defs
  by (auto split: sum.splits prod.splits option.splits)

lemma try_block_second_call:
  assumes "try_block E cfg pr t tp pp out qd w = (res, w')"
    and "calls w' = calls w @ [p1, p2]"
  shows "\<exists>dg. cfg ''dg'' = Some dg \<and> producePrompt E dg qd None = Inr p2"
  using assms unfolding step_defs
  by (auto split: sum.splits prod.splits option.splits)

lemma try_block_stage1_raises:
  assumes "cfg ''rg'' = Some rg" "producePrompt E rg qd (Some pr) = Inr p1"
    and "generate E (backend w) p1 t tp pp = (Inl e, g1)"
  shows "try_block E cfg pr t tp pp out qd w = (Inl e, w\<lparr>backend := g1, calls := calls w @ [p1]\<rparr>)"
  using assms unfolding step_defs by simp

lemma try_block_stage2_raises:
  assumes "cfg ''rg'' = Some rg" "producePrompt E rg qd (Some pr) = Inr p1"
    and "generate E (backend w) p1 t tp pp = (Inr r, g1)"
    and "cfg ''format'' = Some fmt" "format_rationale_output E r fmt = Inr rat"
    and "cfg ''dg'' = Some dg" "producePrompt E dg qd None = Inr p2"
    and "generate E g1 p2 t tp pp = (Inl e, g2)"
  shows "try_block E cfg pr t tp pp out qd w
         = (Inl e, w\<lparr>backend := g2, calls := calls w @ [p1, p2]\<rparr>)"
  using assms unfolding step_defs by simp

lemma loop_body_pbar:
  "loop_body E cfg pr t tp pp out qd w = (r, w') \<Longrightarrow>
     pbar_n w' = pbar_n w + 1 \<and> pbar_total w' = pbar_total w"
  unfolding loop_body_def step_defs
  by (auto split: sum.splits prod.splits option.splits)

lemma loop_body_raises:
  "loop_body E cfg pr t tp pp out qd w = (Inl e, w') \<Longrightarrow>
     files w' = files w \<and> length (calls w') \<le> length (calls w) + 2"
  using try_block_raises [of E cfg pr t tp pp out qd w e]
  by (auto simp: loop_body_def split: prod.splits)

lemma loop_body_returns_calls:
  "loop_body E cfg pr t tp pp out qd w = (Inr u, w') \<Longrightarrow>
     length (calls w') = length (calls w) + 2"
  using try_block_returns [of E cfg pr t tp pp out qd w u]
  by (auto simp: loop_body_def split: prod.splits)

lemma for_loop_returns:
  "for_loop E cfg pr t tp pp out qds w = (Inr u, w') \<Longrightarrow>
     pbar_n w' = pbar_n w + length qds \<and> pbar_total w' = pbar_total w
     \<and> length (calls w') = length (calls w) + 2 * length qds"
proof (induction qds arbitrary: w)
  case Nil
  then show ?case by simp
next
  case (Cons qd qds)
  from Cons.prems obtain v w1 where
    b: "loop_body E cfg pr t tp pp out qd w = (Inr v, w1)"
    and l: "for_loop E cfg pr t tp pp out qds w1 = (Inr u, w')"
    by (auto split: prod.splits sum.splits)
  from loop_body_pbar [OF b] loop_body_returns_calls [OF b] Cons.IH [OF l]
  show ?case by simp
qed

lemma for_loop_append:
  "for_loop E cfg pr t tp pp out xs w = (Inr u, w1) \<Longrightarrow>
   for_loop E cfg pr t tp pp out (xs @ ys) w = for_loop E cfg pr t tp pp out ys w1"
proof (induction xs arbitrary: w)
  case Nil
  then show ?case by simp
next
  case (Cons x xs)
  from Cons.prems obtain v w0 where
    b: "loop_body E cfg pr t tp pp out x w = (Inr v, w0)"
    and l: "for_loop E cfg pr t tp pp out xs w0 = (Inr u, w1)"
    by (auto split: prod.splits sum.splits)
  from Cons.IH [OF l] b show ?case by simp
qed

lemma for_loop_raises_pbar:
  "for_loop E cfg pr t tp pp out qds w = (Inl e, w') \<Longrightarrow>
     pbar_n w < pbar_n w' \<and> pbar_n w' \<le> pbar_n w + length qds"
proof (induction qds arbitrary: w)
  case Nil
  then show ?case by simp
next
  case (Cons qd qds)
  obtain r w1 where b: "loop_body E cfg pr t tp pp out qd w = (r, w1)"
    by (cases "loop_body E cfg pr t tp pp out qd w")
  note p = loop_body_pbar [OF b]
  show ?case
  proof (cases r)
    case (Inl e')
    with Cons.prems b p show ?thesis by simp
  next
    case (Inr v)
    with Cons.prems b have "for_loop E cfg pr t tp pp out qds w1 = (Inl e, w')" by simp
    from Cons.IH [OF this] p show ?thesis by simp
  qed
qed

lemma stub_facts:
  "producePrompt stub_env name qd extra
     = Inr (name @ (case extra of None \<Rightarrow> [] | Some x \<Rightarrow> ''+'' @ x))"
  "generate stub_env g p t tp pp = (Inr canned_text, Suc g)"
  "format_rationale_output stub_env r fmt = Inr r"
  "format_distractor_output stub_env d = Inr (extractDistractors scan_enumerated d)"
  by (simp_all add: stub_env_def stub_env_saying_def)

lemma flaky_facts:
  "producePrompt (flaky_env k) name qd extra
     = Inr (name @ (case extra of None \<Rightarrow> [] | Some x \<Rightarrow> ''+'' @ x))"
  "generate (flaky_env k) g p t tp pp
     = (if g = k then (Inl (ExternalError ''backend down''), Suc g)
        else (Inr canned_text, Suc g))"
  "format_rationale_output (flaky_env k) r fmt = Inr r"
  "format_distractor_output (flaky_env k) d = Inr (extractDistractors scan_enumerated d)"
  by (simp_all add: flaky_env_def stub_env_def stub_env_saying_def)

lemma stub_scan:
  "scan_enumerated canned_text = [''Mie scattering'', ''Reflection of the sea'']"
  by code_simp

lemma stub_extract:
  "extractDistractors scan_enumerated canned_text
     = [''distractor1'' \<mapsto> ''Mie scattering'', ''distractor2'' \<mapsto> ''Reflection of the sea'',
        ''distractor3'' \<mapsto> []]"
  by (simp add: extractDistractors_def stub_scan slot_def)

lemma saying_facts:
  "producePrompt (stub_env_saying a) name qd extra
     = Inr (name @ (case extra of None \<Rightarrow> [] | Some x \<Rightarrow> ''+'' @ x))"
  "generate (stub_env_saying a) g p t tp pp = (Inr a, Suc g)"
  "format_rationale_output (stub_env_saying a) r fmt = Inr r"
  "format_distractor_output (stub_env_saying a) d = Inr (extractDistractors scan_enumerated d)"
  by (simp_all add: stub_env_saying_def)

lemma other_extract:
  "extractDistractors scan_enumerated ''No idea.''
     = [''distractor1'' \<mapsto> [], ''distractor2'' \<mapsto> [], ''distractor3'' \<mapsto> []]"
proof -
  have "scan_enumerated ''No idea.'' = []" by code_simp
  then show ?thesis by (simp add: extractDistractors_def slot_def)
qed

lemma stub_try_block:
  "files w ''out.json'' = None \<Longrightarrow>
   try_block stub_env stub_config ''principle'' () () () ''out.json'' stub_question w
   = (Inr (), w\<lparr>backend := Suc (Suc (backend w)),
        calls := calls w @ [''rg_rule+principle'', ''dg_rule''],
        files := (files w)(''out.json'' \<mapsto> json_dumps (JArr [stub_record]))\<rparr>)"
  by (simp add: step_defs stub_facts stub_extract stub_config_def stub_question_def
      append_to_output_file_def stub_record_def result_record_def)

lemma other_try_block:
  "files w ''out2.json'' = None \<Longrightarrow>
   calls (snd (try_block (stub_env_saying ''No idea.'') stub_config ''other'' () () ()
        ''out2.json'' stub_question w))
   = calls w @ [''rg_rule+other'', ''dg_rule'']"
  by (simp add: step_defs saying_facts other_extract stub_config_def stub_question_def
      append_to_output_file_def)

lemma flaky_try_block:
  "files w ''out.json'' = None \<Longrightarrow> Suc (backend w) < k \<Longrightarrow>
   try_block (flaky_env k) stub_config ''principle'' () () () ''out.json'' stub_question w
   = (Inr (), w\<lparr>backend := Suc (Suc (backend w)),
        calls := calls w @ [''rg_rule+principle'', ''dg_rule''],
        files := (files w)(''out.json'' \<mapsto> json_dumps (JArr [stub_record]))\<rparr>)"
  by (simp add: step_defs flaky_facts stub_extract stub_config_def stub_question_def
      append_to_output_file_def stub_record_def result_record_def)

lemma flaky_try_block_raises:
  "backend w = k \<Longrightarrow>
   try_block (flaky_env k) stub_config ''principle'' () () () ''out.json'' stub_question w
   = (Inl (ExternalError ''backend down''),
      w\<lparr>backend := Suc k, calls := calls w @ [''rg_rule+principle'']\<rparr>)"
  by (simp add: step_defs flaky_facts stub_config_def)

lemma stub_yield: "yield_item stub_item = Inr stub_question"
  by (simp add: yield_item_def getitem_def stub_item_def stub_question_def)

lemma stub_dataset:
  "read_test_data_iter (files stub_world) ''test.json'' = ([stub_question], None)"
proof -
  have "wf_json (JArr [stub_item])" by (simp add: stub_item_def)
  then have "json_loads (json_dumps (JArr [stub_item])) = Inr (JArr [stub_item])"
    by (rule json_loads_dumps)
  then show ?thesis
    by (simp add: read_test_data_iter_def stub_world_def iter_json_def stub_yield)
qed

lemma stub_process:
  "process_test_data stub_env ''test.json'' ''out.json'' stub_config ''principle'' () () ()
     stub_world
   = (Inr (), stub_world\<lparr>pbar_total := 1, pbar_n := 1, backend := 2,
        calls := [''rg_rule+principle'', ''dg_rule''],
        files := (files stub_world)(''out.json'' \<mapsto> json_dumps (JArr [stub_record]))\<rparr>)"
proof -
  have f: "files stub_world ''out.json'' = None"
    by (simp add: stub_world_def)
  have c: "calls stub_world = []" "backend stub_world = 0" by (simp_all add: stub_world_def)
  show ?thesis
    by (simp add: process_test_data_def total_items_def stub_dataset loop_body_def
        stub_try_block f c numeral_2_eq_2)
qed

lemma flaky_loop_body_raises:
  "loop_body (flaky_env 0) stub_config ''principle'' () () () ''out.json'' stub_question
     stub_world
   = (Inl (ExternalError ''backend down''),
      stub_world\<lparr>backend := 1, calls := [''rg_rule+principle''], pbar_n := 1\<rparr>)"
proof -
  have b: "backend stub_world = 0" "calls stub_world = []" "pbar_n stub_world = 0"
    by (simp_all add: stub_world_def)
  show ?thesis
    by (simp add: loop_body_def flaky_try_block_raises [OF b(1)] b)
qed



lemma process_test_data_raises:
  assumes "read_test_data_iter (files w0) test_file = (qds, None)"
    and "for_loop E cfg pr t tp pp out qds (w0\<lparr>pbar_total := length qds, pbar_n := 0\<rparr>)
         = (Inl e, w2)"
  shows "process_test_data E test_file out cfg pr t tp pp w0 = (Inl e, w2)"
  using assms by (simp add: process_test_data_def total_items_def)

lemma batch_dataset:
  "read_test_data_iter (files batch_world) ''test.json''
     = ([stub_question] @ stub_question # [stub_question, stub_question], None)"
proof -
  have "wf_json (JArr [stub_item, stub_item, stub_item, stub_item])"
    by (simp add: stub_item_def)
  then have "json_loads (json_dumps (JArr [stub_item, stub_item, stub_item, stub_item]))
             = Inr (JArr [stub_item, stub_item, stub_item, stub_item])"
    by (rule json_loads_dumps)
  then show ?thesis
    by (simp add: read_test_data_iter_def batch_world_def iter_json_def stub_yield)
qed

lemma batch_first_item:
  "for_loop (flaky_env 2) stub_config ''principle'' () () () ''out.json'' [stub_question]
     (batch_world\<lparr>pbar_total := 4, pbar_n := 0\<rparr>)
   = (Inr (), batch_world\<lparr>pbar_total := 4, backend := 2,
        calls := [''rg_rule+principle'', ''dg_rule''],
        files := (files batch_world)(''out.json'' \<mapsto> json_dumps (JArr [stub_record])),
        pbar_n := 1\<rparr>)"
proof -
  have f: "files batch_world ''out.json'' = None" "backend batch_world = 0"
    "calls batch_world = []"
    by (simp_all add: batch_world_def)
  show ?thesis
    by (simp add: loop_body_def flaky_try_block f numeral_2_eq_2)
qed

section \<open>The claims about \<^verbatim>\<open>process_test_data\<close>, the dataset, the extraction and the path\<close>

text \<open>
  C3. Take any run of the \<^verbatim>\<open>try\<close> block on a question that calls the backend twice:
  its second prompt is \<^verbatim>\<open>pf.producePrompt(prompt_config['dg'], question_data)\<close>, built
  from the question record and nothing else. So two runs on the same question send the
  same second prompt, whatever their backends answer to the first prompt and whatever
  the rationale extraction makes of it (the two runs may differ in backend, extraction
  functions, principle, parameters, output file and state).
\<close>

theorem distractor_prompt_from_question_alone:
  assumes "try_block E cfg pr t tp pp out qd w = (res, w1)"
    and "calls w1 = calls w @ [p1, p2]"
    and "try_block E' cfg pr' t' tp' pp' out' qd w' = (res', w1')"
    and "calls w1' = calls w' @ [q1, q2]"
    and "producePrompt E' = producePrompt E"
  shows "p2 = q2 \<and> (\<exists>dg. cfg ''dg'' = Some dg \<and> producePrompt E dg qd None = Inr p2)"
proof -
  from try_block_second_call [OF assms(1,2)] obtain dg where
    a: "cfg ''dg'' = Some dg" "producePrompt E dg qd None = Inr p2" by blast
  from try_block_second_call [OF assms(3,4)] obtain dg' where
    b: "cfg ''dg'' = Some dg'" "producePrompt E' dg' qd None = Inr q2" by blast
  from a b assms(5) have "p2 = q2" by simp
  with a show ?thesis by blast
qed

theorem distractor_prompt_from_question_alone_witness:
  "calls (snd (try_block stub_env stub_config ''principle'' () () () ''out.json''
            stub_question stub_world))
     = calls stub_world @ [''rg_rule+principle'', ''dg_rule'']
   \<and> calls (snd (try_block (stub_env_saying ''No idea.'') stub_config ''other'' () () ()
            ''out2.json'' stub_question stub_world))
     = calls stub_world @ [''rg_rule+other'', ''dg_rule'']
   \<and> producePrompt (stub_env_saying ''No idea.'') = producePrompt stub_env
   \<and> (\<exists>dg. stub_config ''dg'' = Some dg
          \<and> producePrompt stub_env dg stub_question None = Inr ''dg_rule'')"
proof -
  have f: "files stub_world ''out.json'' = None" "files stub_world ''out2.json'' = None"
    by (simp_all add: stub_world_def)
  have 1: "calls (snd (try_block stub_env stub_config ''principle'' () () () ''out.json''
            stub_question stub_world))
     = calls stub_world @ [''rg_rule+principle'', ''dg_rule'']"
    by (simp add: stub_try_block [OF f(1)])
  note 2 = other_try_block [OF f(2)]
  have 3: "producePrompt (stub_env_saying ''No idea.'') = producePrompt stub_env"
    by (simp add: stub_env_def stub_env_saying_def)
  from distractor_prompt_from_question_alone
    [OF prod.collapse [symmetric] 1 prod.collapse [symmetric] 2 3] 1 2 3
  show ?thesis by blast
qed

text \<open>
  C4. The loop body adds exactly 1 to the progress counter, whether the \<^verbatim>\<open>try\<close> block
  returns or raises (\<^verbatim>\<open>finally: pbar.update(1)\<close>); a loop that runs to its end has added
  the number of entries; and after a run of \<^verbatim>\<open>process_test_data\<close> that returns, the
  counter equals the bar's total, which is the count of the pre-scan.
\<close>

theorem progress_counts_every_item:
  "(loop_body E cfg pr t tp pp out qd w = (r, w') \<longrightarrow> pbar_n w' = pbar_n w + 1)
   \<and> (for_loop E cfg pr t tp pp out qds wa = (Inr (), wb)
        \<longrightarrow> pbar_n wb = pbar_n wa + length qds)
   \<and> (process_test_data E test_file out cfg pr t tp pp w0 = (Inr (), w1)
        \<longrightarrow> total_items (files w0) test_file = Inr (pbar_total w1)
          \<and> pbar_n w1 = pbar_total w1)"
proof (intro conjI impI)
  assume "loop_body E cfg pr t tp pp out qd w = (r, w')"
  from loop_body_pbar [OF this] show "pbar_n w' = pbar_n w + 1" by simp
next
  assume "for_loop E cfg pr t tp pp out qds wa = (Inr (), wb)"
  from for_loop_returns [OF this] show "pbar_n wb = pbar_n wa + length qds" by simp
next
  assume run: "process_test_data E test_file out cfg pr t tp pp w0 = (Inr (), w1)"
  obtain xs err where rd: "read_test_data_iter (files w0) test_file = (xs, err)"
    by (cases "read_test_data_iter (files w0) test_file")
  from run rd have err: "err = None"
    by (auto simp: process_test_data_def total_items_def split: option.splits)
  let ?w = "w0\<lparr>pbar_total := length xs, pbar_n := 0\<rparr>"
  from run rd err have loop: "for_loop E cfg pr t tp pp out xs ?w = (Inr (), w1)"
    by (auto simp: process_test_data_def total_items_def Let_def
        split: option.splits sum.splits prod.splits)
  from for_loop_returns [OF loop]
  have "pbar_n w1 = length xs" "pbar_total w1 = length xs" by simp_all
  with rd err show "total_items (files w0) test_file = Inr (pbar_total w1)"
    by (simp add: total_items_def)
  from \<open>pbar_n w1 = length xs\<close> \<open>pbar_total w1 = length xs\<close>
  show "pbar_n w1 = pbar_total w1" by simp
qed

theorem progress_counts_every_item_witness:
  "loop_body (flaky_env 0) stub_config ''principle'' () () () ''out.json'' stub_question
     stub_world
   = (Inl (ExternalError ''backend down''),
      stub_world\<lparr>backend := 1, calls := [''rg_rule+principle''], pbar_n := 1\<rparr>)
   \<and> pbar_n (stub_world\<lparr>backend := 1, calls := [''rg_rule+principle''], pbar_n := 1\<rparr>)
       = pbar_n stub_world + 1
   \<and> fst (process_test_data stub_env ''test.json'' ''out.json'' stub_config ''principle''
         () () () stub_world) = Inr ()
   \<and> total_items (files stub_world) ''test.json'' = Inr 1
   \<and> pbar_total (snd (process_test_data stub_env ''test.json'' ''out.json'' stub_config
         ''principle'' () () () stub_world)) = 1
   \<and> pbar_n (snd (process_test_data stub_env ''test.json'' ''out.json'' stub_config
         ''principle'' () () () stub_world)) = 1"
proof -
  note t = progress_counts_every_item
    [where E = "flaky_env 0" and cfg = stub_config and pr = "''principle''" and t = "()"
      and tp = "()" and pp = "()" and out = "''out.json''" and qd = stub_question
      and w = stub_world and r = "Inl (ExternalError ''backend down'')"
      and w' = "stub_world\<lparr>backend := 1, calls := [''rg_rule+principle''], pbar_n := 1\<rparr>"]
  note u = progress_counts_every_item
    [where E = stub_env and cfg = stub_config and pr = "''principle''" and t = "()"
      and tp = "()" and pp = "()" and out = "''out.json''" and test_file = "''test.json''"
      and ?w0.0 = stub_world
      and ?w1.0 = "snd (process_test_data stub_env ''test.json'' ''out.json'' stub_config
         ''principle'' () () () stub_world)"]
  have p: "pbar_total (snd (process_test_data stub_env ''test.json'' ''out.json'' stub_config
         ''principle'' () () () stub_world)) = 1"
    by (simp add: stub_process)
  from t u flaky_loop_body_raises stub_process p show ?thesis by simp
qed

text \<open>
  C5. Let the entries \<open>pre\<close> be processed without an exception, and let the backend
  raise \<open>e\<close> on the next entry \<open>qd\<close>, at its first call or at its second. Then the loop
  over \<open>pre @ qd # post\<close> ends with \<open>e\<close>, whatever \<open>post\<close> is: the entries after \<open>qd\<close>
  are not counted by the progress bar, the files are as the entries \<open>pre\<close> left them, and
  the backend was called exactly twice for each entry of \<open>pre\<close>, once or twice for \<open>qd\<close>
  (no retry), and not again. When these entries are the dataset, \<^verbatim>\<open>process_test_data\<close>
  ends with \<open>e\<close> in the same state.
\<close>

theorem backend_failure_aborts_run:
  assumes "for_loop E cfg pr t tp pp out pre w = (Inr (), w1)"
    and "cfg ''rg'' = Some rg"
    and "producePrompt E rg qd (Some pr) = Inr p1"
    and "(\<exists>g1. generate E (backend w1) p1 t tp pp = (Inl e, g1))
       \<or> (\<exists>r g1 fmt rat dg p2 g2.
             generate E (backend w1) p1 t tp pp = (Inr r, g1)
           \<and> cfg ''format'' = Some fmt \<and> format_rationale_output E r fmt = Inr rat
           \<and> cfg ''dg'' = Some dg \<and> producePrompt E dg qd None = Inr p2
           \<and> generate E g1 p2 t tp pp = (Inl e, g2))"
  shows "\<exists>w2. for_loop E cfg pr t tp pp out (pre @ qd # post) w = (Inl e, w2)
           \<and> files w2 = files w1
           \<and> pbar_n w2 = pbar_n w + length pre + 1
           \<and> length (calls w1) = length (calls w) + 2 * length pre
           \<and> length (calls w1) < length (calls w2)
           \<and> length (calls w2) \<le> length (calls w1) + 2
           \<and> (\<forall>w0 test_file.
                 read_test_data_iter (files w0) test_file = (pre @ qd # post, None)
               \<and> w = w0\<lparr>pbar_total := length (pre @ qd # post), pbar_n := 0\<rparr>
               \<longrightarrow> process_test_data E test_file out cfg pr t tp pp w0 = (Inl e, w2))"
proof -
  note pre = for_loop_returns [OF assms(1)]
  have "\<exists>w2'. try_block E cfg pr t tp pp out qd w1 = (Inl e, w2')
         \<and> length (calls w1) < length (calls w2')"
    using assms(4)
  proof
    assume "\<exists>g1. generate E (backend w1) p1 t tp pp = (Inl e, g1)"
    then obtain g1 where "generate E (backend w1) p1 t tp pp = (Inl e, g1)" ..
    with assms(2,3) have "try_block E cfg pr t tp pp out qd w1
        = (Inl e, w1\<lparr>backend := g1, calls := calls w1 @ [p1]\<rparr>)"
      unfolding step_defs by simp
    then show ?thesis by simp
  next
    assume "\<exists>r g1 fmt rat dg p2 g2.
             generate E (backend w1) p1 t tp pp = (Inr r, g1)
           \<and> cfg ''format'' = Some fmt \<and> format_rationale_output E r fmt = Inr rat
           \<and> cfg ''dg'' = Some dg \<and> producePrompt E dg qd None = Inr p2
           \<and> generate E g1 p2 t tp pp = (Inl e, g2)"
    then obtain r g1 fmt rat dg p2 g2 where
      s: "generate E (backend w1) p1 t tp pp = (Inr r, g1)" "cfg ''format'' = Some fmt"
         "format_rationale_output E r fmt = Inr rat" "cfg ''dg'' = Some dg"
         "producePrompt E dg qd None = Inr p2" "generate E g1 p2 t tp pp = (Inl e, g2)"
      by blast
    with assms(2,3) have "try_block E cfg pr t tp pp out qd w1
        = (Inl e, w1\<lparr>backend := g2, calls := calls w1 @ [p1, p2]\<rparr>)"
      unfolding step_defs by simp
    then show ?thesis by simp
  qed
  then obtain w2' where
    tb: "try_block E cfg pr t tp pp out qd w1 = (Inl e, w2')"
    and more: "length (calls w1) < length (calls w2')" by blast
  let ?w2 = "w2'\<lparr>pbar_n := pbar_n w2' + 1\<rparr>"
  have lb: "loop_body E cfg pr t tp pp out qd w1 = (Inl e, ?w2)"
    using tb by (simp add: loop_body_def)
  have "for_loop E cfg pr t tp pp out (pre @ qd # post) w
        = for_loop E cfg pr t tp pp out (qd # post) w1"
    using assms(1) by (rule for_loop_append)
  with lb have run: "for_loop E cfg pr t tp pp out (pre @ qd # post) w = (Inl e, ?w2)"
    by simp
  have whole: "\<forall>w0 test_file.
                 read_test_data_iter (files w0) test_file = (pre @ qd # post, None)
               \<and> w = w0\<lparr>pbar_total := length (pre @ qd # post), pbar_n := 0\<rparr>
               \<longrightarrow> process_test_data E test_file out cfg pr t tp pp w0 = (Inl e, ?w2)"
  proof (intro allI impI, elim conjE)
    fix w0 test_file
    assume rd: "read_test_data_iter (files w0) test_file = (pre @ qd # post, None)"
      and w: "w = w0\<lparr>pbar_total := length (pre @ qd # post), pbar_n := 0\<rparr>"
    from run w have "for_loop E cfg pr t tp pp out (pre @ qd # post)
        (w0\<lparr>pbar_total := length (pre @ qd # post), pbar_n := 0\<rparr>) = (Inl e, ?w2)"
      by simp
    with rd show "process_test_data E test_file out cfg pr t tp pp w0 = (Inl e, ?w2)"
      by (rule process_test_data_raises)
  qed
  note tr = try_block_raises [OF tb]
  have 1: "files ?w2 = files w1" using tr by simp
  have 2: "pbar_n ?w2 = pbar_n w + length pre + 1" using tr pre by simp
  have 3: "length (calls w1) = length (calls w) + 2 * length pre" using pre by simp
  have 4: "length (calls w1) < length (calls ?w2)" using more by simp
  have 5: "length (calls ?w2) \<le> length (calls w1) + 2" using tr by simp
  from run 1 2 3 4 5 whole show ?thesis by blast
qed

theorem backend_failure_aborts_run_witness:
  "fst (for_loop (flaky_env 2) stub_config ''principle'' () () () ''out.json''
          [stub_question] (batch_world\<lparr>pbar_total := 4, pbar_n := 0\<rparr>)) = Inr ()
   \<and> stub_config ''rg'' = Some ''rg_rule''
   \<and> producePrompt (flaky_env 2) ''rg_rule'' stub_question (Some ''principle'')
       = Inr ''rg_rule+principle''
   \<and> generate (flaky_env 2)
        (backend (snd (for_loop (flaky_env 2) stub_config ''principle'' () () () ''out.json''
          [stub_question] (batch_world\<lparr>pbar_total := 4, pbar_n := 0\<rparr>))))
        ''rg_rule+principle'' () () ()
       = (Inl (ExternalError ''backend down''), 3)
   \<and> read_test_data_iter (files batch_world) ''test.json''
       = ([stub_question] @ stub_question # [stub_question, stub_question], None)
   \<and> (\<exists>w2. process_test_data (flaky_env 2) ''test.json'' ''out.json'' stub_config
              ''principle'' () () () batch_world
            = (Inl (ExternalError ''backend down''), w2)
          \<and> files w2 ''out.json'' = Some (json_dumps (JArr [stub_record]))
          \<and> pbar_total w2 = 4 \<and> pbar_n w2 = 2 \<and> length (calls w2) = 3)"
proof -
  let ?w = "batch_world\<lparr>pbar_total := 4, pbar_n := 0\<rparr>"
  let ?w1 = "batch_world\<lparr>pbar_total := 4, backend := 2,
        calls := [''rg_rule+principle'', ''dg_rule''],
        files := (files batch_world)(''out.json'' \<mapsto> json_dumps (JArr [stub_record])),
        pbar_n := 1\<rparr>"
  have a: "stub_config ''rg'' = Some ''rg_rule''" by (simp add: stub_config_def)
  have b: "producePrompt (flaky_env 2) ''rg_rule'' stub_question (Some ''principle'')
       = Inr ''rg_rule+principle''" by (simp add: flaky_facts)
  have c: "generate (flaky_env 2) (backend ?w1) ''rg_rule+principle'' () () ()
       = (Inl (ExternalError ''backend down''), 3)"
    by (simp add: flaky_facts)
  then have d: "(\<exists>g1. generate (flaky_env 2) (backend ?w1) ''rg_rule+principle'' () () ()
              = (Inl (ExternalError ''backend down''), g1)) \<or>
      (\<exists>r g1 fmt rat dg p2 g2.
             generate (flaky_env 2) (backend ?w1) ''rg_rule+principle'' () () () = (Inr r, g1)
           \<and> stub_config ''format'' = Some fmt
           \<and> format_rationale_output (flaky_env 2) r fmt = Inr rat
           \<and> stub_config ''dg'' = Some dg
           \<and> producePrompt (flaky_env 2) dg stub_question None = Inr p2
           \<and> generate (flaky_env 2) g1 p2 () () () = (Inl (ExternalError ''backend down''), g2))"
    by blast
  from backend_failure_aborts_run
    [of "flaky_env 2" stub_config "''principle''" "()" "()" "()" "''out.json''"
      "[stub_question]" ?w ?w1 "''rg_rule''" stub_question "''rg_rule+principle''"
      "ExternalError ''backend down''" "[stub_question, stub_question]",
      OF batch_first_item a b d]
  obtain w2 where w2:
    "files w2 = files ?w1" "pbar_n w2 = pbar_n ?w + length [stub_question] + 1"
    "length (calls ?w1) < length (calls w2)" "length (calls w2) \<le> length (calls ?w1) + 2"
    "\<forall>w0 test_file.
        read_test_data_iter (files w0) test_file
          = ([stub_question] @ stub_question # [stub_question, stub_question], None)
      \<and> ?w = w0\<lparr>pbar_total := length ([stub_question] @ stub_question
                      # [stub_question, stub_question]), pbar_n := 0\<rparr>
      \<longrightarrow> process_test_data (flaky_env 2) test_file ''out.json'' stub_config ''principle''
            () () () w0 = (Inl (ExternalError ''backend down''), w2)"
    by blast
  have "?w = batch_world\<lparr>pbar_total := length ([stub_question] @ stub_question
                      # [stub_question, stub_question]), pbar_n := 0\<rparr>" by simp
  with w2(5) batch_dataset
  have run: "process_test_data (flaky_env 2) ''test.json'' ''out.json'' stub_config
      ''principle'' () () () batch_world = (Inl (ExternalError ''backend down''), w2)"
    by blast
  have f: "files batch_world ''out.json'' = None" "backend batch_world = 0"
    "calls batch_world = []"
    by (simp_all add: batch_world_def)
  have "process_test_data (flaky_env 2) ''test.json'' ''out.json'' stub_config
      ''principle'' () () () batch_world
     = (Inl (ExternalError ''backend down''),
        ?w1\<lparr>backend := 3, calls := calls ?w1 @ [''rg_rule+principle''], pbar_n := 2\<rparr>)"
    using batch_dataset
    by (simp add: process_test_data_def total_items_def loop_body_def flaky_try_block
        flaky_try_block_raises f)
  with run have w2eq: "w2 = ?w1\<lparr>backend := 3, calls := calls ?w1 @ [''rg_rule+principle''],
      pbar_n := 2\<rparr>" by simp
  have "files w2 ''out.json'' = Some (json_dumps (JArr [stub_record]))"
    using w2(1) by simp
  moreover have "pbar_total w2 = 4" "pbar_n w2 = 2" "length (calls w2) = 3"
    using w2eq by simp_all
  ultimately show ?thesis using batch_first_item a b c batch_dataset run by simp
qed

text \<open>
  C6. If the loop body raises on an entry, the files are what they were before the
  entry: the append is the last statement of the \<^verbatim>\<open>try\<close> block. (The marker
  \<open>Unmodelled\<close> is not an exception of the program and is left out.)
\<close>

theorem no_record_when_item_raises:
  assumes "loop_body E cfg pr t tp pp out qd w = (Inl e, w')" and "e \<noteq> Unmodelled"
  shows "files w' = files w"
  using loop_body_raises [OF assms(1)] by simp

theorem no_record_when_item_raises_witness:
  "loop_body (flaky_env 0) stub_config ''principle'' () () () ''out.json'' stub_question
     stub_world
   = (Inl (ExternalError ''backend down''),
      stub_world\<lparr>backend := 1, calls := [''rg_rule+principle''], pbar_n := 1\<rparr>)
   \<and> ExternalError ''backend down'' \<noteq> Unmodelled
   \<and> files (stub_world\<lparr>backend := 1, calls := [''rg_rule+principle''], pbar_n := 1\<rparr>)
       = files stub_world"
  using no_record_when_item_raises [OF flaky_loop_body_raises] flaky_loop_body_raises
  by simp

text \<open>
  C7. When the \<^verbatim>\<open>try\<close> block returns, the files changed by one append, of the record
  with the five keys \<^verbatim>\<open>question\<close>, \<^verbatim>\<open>correct_answer\<close>, \<^verbatim>\<open>distractor1\<close>,
  \<^verbatim>\<open>distractor2\<close>, \<^verbatim>\<open>distractor3\<close> in this order: the first two values are those of the
  question record, the other three are the three entries of the dict that
  \<^verbatim>\<open>format_distractor_output\<close> returned for a response of the backend; \<^verbatim>\<open>support\<close> is
  not among the keys. With no output file before, the file then decodes to the array of
  this one record.
\<close>

theorem persisted_record_fields:
  assumes "try_block E cfg pr t tp pp out qd w = (Inr (), w')"
  shows "\<exists>p2 g1 g2 d ex d1 d2 d3.
      generate E g1 p2 t tp pp = (Inr d, g2)
    \<and> format_distractor_output E d = Inr ex
    \<and> ex ''distractor1'' = Some d1 \<and> ex ''distractor2'' = Some d2
    \<and> ex ''distractor3'' = Some d3
    \<and> append_to_output_file (files w) out (result_record qd d1 d2 d3) = Inr (files w')
    \<and> result_record qd d1 d2 d3
        = JObj [(''question'', question qd), (''correct_answer'', correct_answer qd),
                (''distractor1'', JStr d1), (''distractor2'', JStr d2),
                (''distractor3'', JStr d3)]
    \<and> (files w out = None \<and> wf_json (question qd) \<and> wf_json (correct_answer qd)
         \<longrightarrow> read_json (files w') out = Inr (JArr [result_record qd d1 d2 d3]))"
proof -
  from try_block_returns [OF assms] obtain p2 g1 d g2 ex d1 d2 d3 fs' where
    s: "generate E g1 p2 t tp pp = (Inr d, g2)" "format_distractor_output E d = Inr ex"
       "ex ''distractor1'' = Some d1" "ex ''distractor2'' = Some d2"
       "ex ''distractor3'' = Some d3"
       "append_to_output_file (files w) out (result_record qd d1 d2 d3) = Inr fs'"
       "files w' = fs'"
    by auto
  have r: "files w out = None \<and> wf_json (question qd) \<and> wf_json (correct_answer qd)
         \<longrightarrow> read_json (files w') out = Inr (JArr [result_record qd d1 d2 d3])"
  proof
    assume h: "files w out = None \<and> wf_json (question qd) \<and> wf_json (correct_answer qd)"
    then have "wf_json (JArr [result_record qd d1 d2 d3])"
      by (simp add: result_record_def)
    then have "json_loads (json_dumps (JArr [result_record qd d1 d2 d3]))
               = Inr (JArr [result_record qd d1 d2 d3])"
      by (rule json_loads_dumps)
    with h s(6,7) show "read_json (files w') out = Inr (JArr [result_record qd d1 d2 d3])"
      by (auto simp: append_to_absent_file read_json_def)
  qed
  have a: "append_to_output_file (files w) out (result_record qd d1 d2 d3) = Inr (files w')"
    using s(6,7) by simp
  have rr: "result_record qd d1 d2 d3
        = JObj [(''question'', question qd), (''correct_answer'', correct_answer qd),
                (''distractor1'', JStr d1), (''distractor2'', JStr d2),
                (''distractor3'', JStr d3)]"
    by (simp add: result_record_def)
  from s(1-5) a rr r show ?thesis by blast
qed

theorem persisted_record_fields_witness:
  "try_block stub_env stub_config ''principle'' () () () ''out.json'' stub_question stub_world
   = (Inr (), stub_world\<lparr>backend := 2, calls := [''rg_rule+principle'', ''dg_rule''],
        files := (files stub_world)(''out.json'' \<mapsto> json_dumps (JArr [stub_record]))\<rparr>)
   \<and> files stub_world ''out.json'' = None
   \<and> wf_json (question stub_question) \<and> wf_json (correct_answer stub_question)
   \<and> (\<exists>d1 d2 d3.
        append_to_output_file (files stub_world) ''out.json''
          (result_record stub_question d1 d2 d3)
        = Inr (files (stub_world\<lparr>backend := 2,
             calls := [''rg_rule+principle'', ''dg_rule''],
             files := (files stub_world)(''out.json'' \<mapsto> json_dumps (JArr [stub_record]))\<rparr>))
      \<and> read_json (files (stub_world\<lparr>backend := 2,
             calls := [''rg_rule+principle'', ''dg_rule''],
             files := (files stub_world)(''out.json'' \<mapsto> json_dumps (JArr [stub_record]))\<rparr>))
          ''out.json'' = Inr (JArr [result_record stub_question d1 d2 d3]))"
proof -
  let ?W = "stub_world\<lparr>backend := 2, calls := [''rg_rule+principle'', ''dg_rule''],
        files := (files stub_world)(''out.json'' \<mapsto> json_dumps (JArr [stub_record]))\<rparr>"
  have f: "files stub_world ''out.json'' = None" "backend stub_world = 0"
    "calls stub_world = []"
    by (simp_all add: stub_world_def)
  have wf: "wf_json (question stub_question)" "wf_json (correct_answer stub_question)"
    by (simp_all add: stub_question_def)
  have run: "try_block stub_env stub_config ''principle'' () () () ''out.json'' stub_question
       stub_world = (Inr (), ?W)"
    by (simp add: stub_try_block f numeral_2_eq_2)
  from persisted_record_fields [OF run] obtain d1 d2 d3 where
    a: "append_to_output_file (files stub_world) ''out.json''
          (result_record stub_question d1 d2 d3) = Inr (files ?W)"
    and b: "files stub_world ''out.json'' = None \<and> wf_json (question stub_question)
          \<and> wf_json (correct_answer stub_question)
         \<longrightarrow> read_json (files ?W) ''out.json''
             = Inr (JArr [result_record stub_question d1 d2 d3])"
    by blast
  from b f(1) wf have "read_json (files ?W) ''out.json''
             = Inr (JArr [result_record stub_question d1 d2 d3])" by blast
  with a have "\<exists>d1 d2 d3.
        append_to_output_file (files stub_world) ''out.json''
          (result_record stub_question d1 d2 d3) = Inr (files ?W)
      \<and> read_json (files ?W) ''out.json'' = Inr (JArr [result_record stub_question d1 d2 d3])"
    by blast
  with run f(1) wf show ?thesis by blast
qed



text \<open>
  C9. If the scan finds exactly two candidates in the raw text, the extraction returns
  the dict whose first two distractors are the two candidates, in order, and whose third
  is the empty string; the extraction is a total function, it has no way to raise.
\<close>

theorem two_candidates_leave_third_empty:
  assumes "scan raw = [a, b]"
  shows "extractDistractors scan raw
         = [''distractor1'' \<mapsto> a, ''distractor2'' \<mapsto> b, ''distractor3'' \<mapsto> []]"
  using assms by (simp add: extractDistractors_def slot_def)

theorem two_candidates_leave_third_empty_witness:
  "scan_enumerated canned_text = [''Mie scattering'', ''Reflection of the sea'']
   \<and> extractDistractors scan_enumerated canned_text
       = [''distractor1'' \<mapsto> ''Mie scattering'', ''distractor2'' \<mapsto> ''Reflection of the sea'',
          ''distractor3'' \<mapsto> []]"
  using two_candidates_leave_third_empty
      [of scan_enumerated canned_text "''Mie scattering''" "''Reflection of the sea''"]
    stub_scan by simp

text \<open>
  C10. With a configured base, the path of the output file is the base, a hyphen, the
  model identifier, a hyphen, the prompt style and \<^verbatim>\<open>.json\<close>.
\<close>

theorem output_file_path:
  assumes "file_config ''output_file'' = Some base"
  shows "main_output_file file_config a
         = Inr (base @ ''-'' @ args_model a @ ''-'' @ args_prompt a @ ''.json'')"
  using assms by (simp add: main_output_file_def lookup_def)

theorem output_file_path_witness:
  "[''test_file'' \<mapsto> ''data/sciq.json'', ''output_file'' \<mapsto> ''output/sciq''] ''output_file''
     = Some ''output/sciq''
   \<and> main_output_file
         [''test_file'' \<mapsto> ''data/sciq.json'', ''output_file'' \<mapsto> ''output/sciq'']
         \<lparr>args_dataset = ''sciq'', args_model = ''qwen7b'', args_prompt = ''cot''\<rparr>
       = Inr ''output/sciq-qwen7b-cot.json''"
proof -
  have a: "[''test_file'' \<mapsto> ''data/sciq.json'', ''output_file'' \<mapsto> ''output/sciq'']
             ''output_file'' = Some ''output/sciq''" by simp
  from output_file_path
    [of "[''test_file'' \<mapsto> ''data/sciq.json'', ''output_file'' \<mapsto> ''output/sciq'']"
      "''output/sciq''"
      "\<lparr>args_dataset = ''sciq'', args_model = ''qwen7b'', args_prompt = ''cot''\<rparr>"] a
  show ?thesis by simp
qed

end
